theory Spec2Isabelle
  imports Main
begin

section \<open>Platform constants and build variants\<close>

text \<open>
  The module \<^verbatim>\<open>src/nss.c\<close> is the glibc name-service backend of nss-mdns.  The integer
  constants below come from the system headers it includes (\<^verbatim>\<open>errno.h\<close>, \<^verbatim>\<open>netdb.h\<close>,
  \<^verbatim>\<open>sys/socket.h\<close>, \<^verbatim>\<open>nss.h\<close>); the values are those of Linux.  Only their being
  distinct is ever used.
\<close>

definition MAX_ENTRIES :: int where
  "MAX_ENTRIES = 16"

definition AF_INET :: int where
  "AF_INET = 2"

definition AF_INET6 :: int where
  "AF_INET6 = 10"

definition EINVAL :: int where
  "EINVAL = 22"

definition ERANGE :: int where
  "ERANGE = 34"

definition ETIMEDOUT :: int where
  "ETIMEDOUT = 110"

definition HOST_NOT_FOUND :: int where
  "HOST_NOT_FOUND = 1"

definition NO_RECOVERY :: int where
  "NO_RECOVERY = 3"

datatype nss_status =
    NSS_STATUS_TRYAGAIN
  | NSS_STATUS_UNAVAIL
  | NSS_STATUS_NOTFOUND
  | NSS_STATUS_SUCCESS

text \<open>
  A build is fixed by the two preprocessor switches tested in \<^verbatim>\<open>nss.c\<close> and by the size
  of a pointer (\<^verbatim>\<open>sizeof(char*)\<close>, equal to \<^verbatim>\<open>sizeof(void*)\<close>), which the platform
  decides.
\<close>

record build =
  NSS_IPV4_ONLY :: bool
  NSS_IPV6_ONLY :: bool
  sizeof_ptr :: nat

text \<open>
  Modelled from the spec: \<^verbatim>\<open>query.h\<close>, which declares \<^verbatim>\<open>ipv4_address_t\<close> and
  \<^verbatim>\<open>ipv6_address_t\<close>, is not among the sources.  The specification gives an address as a
  fixed-width byte sequence of 4 or of 16 bytes, so an address is a constructor applied to
  that many bytes and \<^verbatim>\<open>sizeof\<close> is the number of them.
\<close>

datatype ipv4_address_t = IPv4 char char char char

datatype ipv6_address_t =
  IPv6 char char char char char char char char char char char char char char char char

fun ipv4_bytes :: "ipv4_address_t \<Rightarrow> char list" where
  "ipv4_bytes (IPv4 a b c d) = [a, b, c, d]"

fun ipv6_bytes :: "ipv6_address_t \<Rightarrow> char list" where
  "ipv6_bytes (IPv6 a b c d e f g h i j k l m n p q) =
     [a, b, c, d, e, f, g, h, i, j, k, l, m, n, p, q]"

definition sizeof_ipv4_address_t :: nat where
  "sizeof_ipv4_address_t = 4"

definition sizeof_ipv6_address_t :: nat where
  "sizeof_ipv6_address_t = 16"

section \<open>Outcomes of a run\<close>

text \<open>
  A C function either returns, or stops the process in \<^verbatim>\<open>assert\<close> (\<open>Abort\<close>), or leaves
  the defined behaviour of the language by reading or writing outside an object (\<open>UB\<close>).
  The assertions are modelled as compiled in (\<^verbatim>\<open>NDEBUG\<close> is not defined by the source).
\<close>

datatype 'a res = Done 'a | Abort | UB

fun rbind :: "'a res \<Rightarrow> ('a \<Rightarrow> 'b res) \<Rightarrow> 'b res" where
  "rbind (Done x) f = f x"
| "rbind Abort f = Abort"
| "rbind UB f = UB"

section \<open>C strings and C integers\<close>

text \<open>
  A \<^verbatim>\<open>const char *\<close> argument is given by the bytes found at the pointer; the C string is
  what precedes the first NUL byte.  A null pointer is \<open>None\<close>.
\<close>

definition NUL :: char where
  "NUL = CHR 0x00"

definition c_str :: "string \<Rightarrow> string" where
  "c_str s = takeWhile (\<lambda>c. c \<noteq> NUL) s"

definition strlen :: "string \<Rightarrow> nat" where
  "strlen s = length (c_str s)"

text \<open>
  \<^verbatim>\<open>int\<close> has 32 bits.  \<^verbatim>\<open>u->data_len += n\<close> with \<open>n\<close> of type \<^verbatim>\<open>size_t\<close> adds in
  \<^verbatim>\<open>size_t\<close> and converts the sum back to \<^verbatim>\<open>int\<close>, which keeps its low 32 bits.
  Values of type \<^verbatim>\<open>size_t\<close> are natural numbers here: every \<^verbatim>\<open>size_t\<close> sum the module
  forms is the length of a string held in memory plus at most a few hundred bytes, far
  below the size of the address space.
\<close>

definition int32 :: "int \<Rightarrow> int" where
  "int32 x = (x + 2147483648) mod 4294967296 - 2147483648"

section \<open>The accumulator\<close>

text \<open>
  \<^verbatim>\<open>struct userdata\<close>: a count, a byte total and a union of three arrays of
  \<^verbatim>\<open>MAX_ENTRIES\<close> slots.  The union is a map from slot index to what was last stored
  there; a slot never written is \<open>None\<close>.  A name slot holds what \<^verbatim>\<open>strdup\<close> returned:
  a copy of the string, or the null pointer when the allocation failed.
\<close>

datatype entry =
    Ipv4 ipv4_address_t
  | Ipv6 ipv6_address_t
  | Name "string option"

record userdata =
  count :: int
  data_len :: int
  data :: "nat \<Rightarrow> entry option"

text \<open>
  The three callbacks.  The pointer argument may be null, which the assertion rejects;
  \<^verbatim>\<open>userdata\<close> is always the address of the caller's local.  The store into the array is
  guarded from above by the test against \<^verbatim>\<open>MAX_ENTRIES\<close>; a negative index would leave the
  array.  \<^verbatim>\<open>count++\<close> cannot overflow, since it runs only below \<^verbatim>\<open>MAX_ENTRIES\<close>.
\<close>

definition ipv4_callback :: "ipv4_address_t option \<Rightarrow> userdata \<Rightarrow> userdata res" where
  "ipv4_callback ipv4 u =
     (case ipv4 of
        None \<Rightarrow> Abort
      | Some a \<Rightarrow>
          if count u \<ge> MAX_ENTRIES then Done u
          else if count u < 0 then UB
          else Done (u\<lparr>count := count u + 1,
                        data := (data u)(nat (count u) \<mapsto> Ipv4 a),
                        data_len := int32 (data_len u + int sizeof_ipv4_address_t)\<rparr>))"

definition ipv6_callback :: "ipv6_address_t option \<Rightarrow> userdata \<Rightarrow> userdata res" where
  "ipv6_callback ipv6 u =
     (case ipv6 of
        None \<Rightarrow> Abort
      | Some a \<Rightarrow>
          if count u \<ge> MAX_ENTRIES then Done u
          else if count u < 0 then UB
          else Done (u\<lparr>count := count u + 1,
                        data := (data u)(nat (count u) \<mapsto> Ipv6 a),
                        data_len := int32 (data_len u + int sizeof_ipv6_address_t)\<rparr>))"

text \<open>
  \<^verbatim>\<open>name_callback\<close> also calls \<^verbatim>\<open>strdup\<close>; the flag says whether that allocation
  succeeds.
\<close>

definition name_callback :: "string option \<Rightarrow> bool \<Rightarrow> userdata \<Rightarrow> userdata res" where
  "name_callback name strdup_ok u =
     (case name of
        None \<Rightarrow> Abort
      | Some s \<Rightarrow>
          if count u \<ge> MAX_ENTRIES then Done u
          else if count u < 0 then UB
          else Done (u\<lparr>count := count u + 1,
                        data := (data u)(nat (count u) \<mapsto>
                                  Name (if strdup_ok then Some (c_str s) else None)),
                        data_len := int32 (data_len u + (int (strlen s) + 1))\<rparr>))"

text \<open>A run of calls of one callback, in order, as the query collaborator makes them.\<close>

fun offer_all :: "('a \<Rightarrow> userdata \<Rightarrow> userdata res) \<Rightarrow> 'a list \<Rightarrow> userdata \<Rightarrow> userdata res" where
  "offer_all cb [] u = Done u"
| "offer_all cb (x # xs) u = rbind (cb x u) (offer_all cb xs)"

text \<open>
  The accumulator as the entry points set it up: count and byte total zero, the array not
  initialised.
\<close>

definition empty_userdata :: userdata where
  "empty_userdata = \<lparr>count = 0, data_len = 0, data = (\<lambda>i. None)\<rparr>"

section \<open>The caller's buffer\<close>

text \<open>
  A pointer is null, or \<^verbatim>\<open>buffer + k\<close>, or an address that is not in the buffer.  A cell
  of memory holds a data byte, or one byte of a stored pointer (the pointer and the
  position of the byte in it), or nothing determinate.  A pointer of \<open>n\<close> bytes is stored as
  its \<open>n\<close> fragments, so nothing depends on the byte order of the machine.
\<close>

datatype ptr = Null | Buf nat | Foreign nat

datatype memval = Undef | Byte char | PtrFrag ptr nat

definition ptr_cells :: "nat \<Rightarrow> ptr \<Rightarrow> memval list" where
  "ptr_cells n p = map (PtrFrag p) [0..<n]"

text \<open>
  The buffer is the list of its cells and \<^verbatim>\<open>buflen\<close> is its length.  A store that does not
  lie inside the buffer is undefined behaviour.
\<close>

definition store :: "memval list \<Rightarrow> nat \<Rightarrow> memval list \<Rightarrow> memval list res" where
  "store m off vs =
     (if off + length vs \<le> length m
      then Done (take off m @ vs @ drop (off + length vs) m)
      else UB)"

definition load :: "memval list \<Rightarrow> nat \<Rightarrow> nat \<Rightarrow> memval list option" where
  "load m off n = (if off + n \<le> length m then Some (take n (drop off m)) else None)"

fun frag_ptr :: "memval \<Rightarrow> ptr option" where
  "frag_ptr (PtrFrag p k) = Some p"
| "frag_ptr Undef = None"
| "frag_ptr (Byte c) = None"

fun byte_of :: "memval \<Rightarrow> char option" where
  "byte_of (Byte c) = Some c"
| "byte_of Undef = None"
| "byte_of (PtrFrag p k) = None"

text \<open>Reading back a pointer, a block of bytes and a NUL-terminated string.\<close>

definition load_ptr :: "nat \<Rightarrow> memval list \<Rightarrow> nat \<Rightarrow> ptr option" where
  "load_ptr n m off =
     (case load m off n of
        None \<Rightarrow> None
      | Some vs \<Rightarrow>
          (case vs of
             [] \<Rightarrow> None
           | v # rest \<Rightarrow>
               (case frag_ptr v of
                  None \<Rightarrow> None
                | Some p \<Rightarrow> if vs = ptr_cells n p then Some p else None)))"

definition load_bytes :: "memval list \<Rightarrow> nat \<Rightarrow> nat \<Rightarrow> char list option" where
  "load_bytes m off n =
     (case load m off n of None \<Rightarrow> None | Some vs \<Rightarrow> those (map byte_of vs))"

definition load_cstring :: "memval list \<Rightarrow> nat \<Rightarrow> string option" where
  "load_cstring m off =
     (let cells = drop off m; pre = takeWhile (\<lambda>v. v \<noteq> Byte NUL) cells in
      if length pre < length cells then those (map byte_of pre) else None)"

section \<open>The output record and the state of a call\<close>

record hostent =
  h_name :: ptr
  h_aliases :: ptr
  h_addrtype :: int
  h_length :: int
  h_addr_list :: ptr

text \<open>The calls made to the query collaborator and to \<^verbatim>\<open>close\<close>, in order.\<close>

datatype call =
    Open_socket int
  | Query_name int string bool bool
  | Query_ipv4 int "char list"
  | Query_ipv6 int "char list"
  | Close int

text \<open>
  What a call can change: the caller's buffer, \<^verbatim>\<open>*result\<close>, \<^verbatim>\<open>*errnop\<close>,
  \<^verbatim>\<open>*h_errnop\<close>, and the calls it has made.
\<close>

record call_state =
  buffer :: "memval list"
  result :: hostent
  errnop :: int
  h_errnop :: int
  calls :: "call list"

section \<open>The query collaborator\<close>

text \<open>
  \<^verbatim>\<open>query.c\<close> is not among the sources; what it does in one call is a parameter.
  \<open>open_fd\<close> is what \<^verbatim>\<open>mdns_open_socket\<close> returns and \<open>open_errno\<close> the value of
  \<^verbatim>\<open>errno\<close> it leaves; \<open>answers\<close> are the addresses a name query finds and \<open>names\<close> the
  names an address query finds (each with the outcome of the \<^verbatim>\<open>strdup\<close> made for it), in
  the order of arrival; \<open>query_r\<close> is what the query returns.
\<close>

datatype answer = A4 "ipv4_address_t option" | A6 "ipv6_address_t option"

record collaborator =
  open_fd :: int
  open_errno :: int
  answers :: "answer list"
  names :: "(string option \<times> bool) list"
  query_r :: int

text \<open>
  Modelled from the spec: \<^verbatim>\<open>mdns_query_name\<close>, \<^verbatim>\<open>mdns_query_ipv4\<close> and
  \<^verbatim>\<open>mdns_query_ipv6\<close> are not among the sources.  By the specification the sink receives
  zero or more results of the requested families, synchronously, before the query returns:
  each answer goes to the callback of its family when one was passed, and a null callback
  receives nothing.
\<close>

fun mdns_query_name :: "answer list \<Rightarrow> bool \<Rightarrow> bool \<Rightarrow> userdata \<Rightarrow> userdata res" where
  "mdns_query_name [] ipv4_func ipv6_func u = Done u"
| "mdns_query_name (A4 a # as) ipv4_func ipv6_func u =
     (if ipv4_func
      then rbind (ipv4_callback a u) (mdns_query_name as ipv4_func ipv6_func)
      else mdns_query_name as ipv4_func ipv6_func u)"
| "mdns_query_name (A6 a # as) ipv4_func ipv6_func u =
     (if ipv6_func
      then rbind (ipv6_callback a u) (mdns_query_name as ipv4_func ipv6_func)
      else mdns_query_name as ipv4_func ipv6_func u)"

definition mdns_query_addr :: "(string option \<times> bool) list \<Rightarrow> userdata \<Rightarrow> userdata res" where
  "mdns_query_addr ns u = offer_all (\<lambda>(name, strdup_ok). name_callback name strdup_ok) ns u"

section \<open>The entry points\<close>

text \<open>The test of the address family, one variant per build.\<close>

definition family_unsupported :: "build \<Rightarrow> int \<Rightarrow> bool" where
  "family_unsupported b af =
     (if NSS_IPV4_ONLY b then af \<noteq> AF_INET
      else if NSS_IPV6_ONLY b then af \<noteq> AF_INET6
      else af \<noteq> AF_INET \<and> af \<noteq> AF_INET6)"

text \<open>The label \<^verbatim>\<open>finish\<close>: close the channel when one is open, and return.\<close>

definition finish :: "int \<Rightarrow> nss_status \<Rightarrow> call_state \<Rightarrow> (nss_status \<times> call_state) res" where
  "finish fd status s =
     Done (status, if fd \<ge> 0 then s\<lparr>calls := calls s @ [Close fd]\<rparr> else s)"

text \<open>
  The bytes \<^verbatim>\<open>memcpy\<close> reads from \<^verbatim>\<open>&u.data\<close>: the first slots of the array of the
  requested family.  A slot that was never written, or written through another member of
  the union, gives indeterminate bytes.
\<close>

definition entry_cells :: "nat \<Rightarrow> entry option \<Rightarrow> memval list" where
  "entry_cells w e =
     (case e of
        Some (Ipv4 a) \<Rightarrow>
          if w = sizeof_ipv4_address_t then map Byte (ipv4_bytes a) else replicate w Undef
      | Some (Ipv6 a) \<Rightarrow>
          if w = sizeof_ipv6_address_t then map Byte (ipv6_bytes a) else replicate w Undef
      | Some (Name s) \<Rightarrow> replicate w Undef
      | None \<Rightarrow> replicate w Undef)"

definition union_cells :: "nat \<Rightarrow> userdata \<Rightarrow> nat \<Rightarrow> memval list" where
  "union_cells w u n = concat (map (\<lambda>i. entry_cells w (data u i)) [0..<n])"

text \<open>The loop that fills the address pointer array (lines 151 and 152).\<close>

function addr_array_loop ::
  "nat \<Rightarrow> nat \<Rightarrow> nat \<Rightarrow> nat \<Rightarrow> int \<Rightarrow> int \<Rightarrow> memval list \<Rightarrow> (int \<times> memval list) res" where
  "addr_array_loop P index astart address_length n i m =
     (if i < n then
        (case store m (index + P * nat i) (ptr_cells P (Buf (astart + address_length * nat i))) of
           Done m' \<Rightarrow> addr_array_loop P index astart address_length n (i + 1) m'
         | Abort \<Rightarrow> Abort
         | UB \<Rightarrow> UB)
      else Done (i, m))"
  by pat_completeness auto
termination
  by (relation "measure (\<lambda>(P, index, astart, address_length, n, i, m). nat (n - i))") auto

text \<open>
  \<^verbatim>\<open>_nss_mdns_gethostbyname2_r\<close> from line 123 on, after a query that did not fail.
  \<open>u\<close> is the accumulator the query filled; its count and byte total are not negative
  there, so their conversion to \<^verbatim>\<open>size_t\<close> is \<open>nat\<close>.
\<close>

definition gethostbyname2_record ::
  "build \<Rightarrow> string \<Rightarrow> int \<Rightarrow> nat \<Rightarrow> int \<Rightarrow> userdata \<Rightarrow> call_state \<Rightarrow>
   (nss_status \<times> call_state) res" where
  "gethostbyname2_record b name af address_length fd u s =
     (let P = sizeof_ptr b; buflen = length (buffer s) in
      rbind (store (buffer s) 0 (ptr_cells P Null)) (\<lambda>m1.
        let r1 = (result s)\<lparr>h_aliases := Buf 0\<rparr>;
            index = P
        in
        rbind (store m1 index (map Byte (c_str name) @ [Byte NUL])) (\<lambda>m2.
          let r2 = r1\<lparr>h_name := Buf index\<rparr>;
              index = index + (strlen name + 1);
              r3 = r2\<lparr>h_addrtype := af, h_length := int address_length\<rparr>
          in
          if buflen < index + nat (data_len u) + P * nat (count u + 1) then
            finish fd NSS_STATUS_TRYAGAIN
              (s\<lparr>buffer := m2, result := r3, errnop := ERANGE, h_errnop := NO_RECOVERY\<rparr>)
          else
            let astart = index;
                l = nat (count u) * address_length
            in
            rbind (store m2 astart (take l (union_cells address_length u (nat (count u))))) (\<lambda>m3.
              let index = index + l in
              rbind (addr_array_loop P index astart address_length (count u) 0 m3) (\<lambda>(i, m4).
                rbind (store m4 (index + P * nat i) (ptr_cells P Null)) (\<lambda>m5.
                  finish fd NSS_STATUS_SUCCESS
                    (s\<lparr>buffer := m5, result := r3\<lparr>h_addr_list := Buf index\<rparr>\<rparr>)))))))"

text \<open>\<^verbatim>\<open>_nss_mdns_gethostbyname2_r\<close>, lines 66 to 164.\<close>

definition gethostbyname2_r ::
  "build \<Rightarrow> collaborator \<Rightarrow> string \<Rightarrow> int \<Rightarrow> call_state \<Rightarrow> (nss_status \<times> call_state) res" where
  "gethostbyname2_r b env name af s =
     (let P = sizeof_ptr b; buflen = length (buffer s) in
      if family_unsupported b af then
        finish (- 1) NSS_STATUS_UNAVAIL (s\<lparr>errnop := EINVAL, h_errnop := NO_RECOVERY\<rparr>)
      else
        let address_length =
              (if af = AF_INET then sizeof_ipv4_address_t else sizeof_ipv6_address_t)
        in
        if buflen < P + strlen name + 1 then
          finish (- 1) NSS_STATUS_TRYAGAIN (s\<lparr>errnop := ERANGE, h_errnop := NO_RECOVERY\<rparr>)
        else
          let fd = open_fd env;
              s1 = s\<lparr>calls := calls s @ [Open_socket fd]\<rparr>
          in
          if fd < 0 then
            finish fd NSS_STATUS_UNAVAIL
              (s1\<lparr>errnop := open_errno env, h_errnop := NO_RECOVERY\<rparr>)
          else
            let s2 = s1\<lparr>calls := calls s1 @
                         [Query_name fd (c_str name) (af = AF_INET) (af = AF_INET6)]\<rparr>
            in
            rbind (mdns_query_name (answers env) (af = AF_INET) (af = AF_INET6) empty_userdata)
              (\<lambda>u.
                if query_r env < 0 then
                  finish fd NSS_STATUS_UNAVAIL
                    (s2\<lparr>errnop := ETIMEDOUT, h_errnop := HOST_NOT_FOUND\<rparr>)
                else gethostbyname2_record b name af address_length fd u s2))"

text \<open>\<^verbatim>\<open>_nss_mdns_gethostbyname_r\<close>, lines 166 to 186.\<close>

definition gethostbyname_r ::
  "build \<Rightarrow> collaborator \<Rightarrow> string \<Rightarrow> call_state \<Rightarrow> (nss_status \<times> call_state) res" where
  "gethostbyname_r b env name s =
     gethostbyname2_r b env name (if NSS_IPV6_ONLY b then AF_INET6 else AF_INET) s"

text \<open>
  The assertion of line 259 and the read of \<^verbatim>\<open>u.data.name[0]\<close>: the count is tested
  first, then the first name against the null pointer.
\<close>

definition first_name :: "userdata \<Rightarrow> string res" where
  "first_name u =
     (if \<not> count u > 0 then Abort
      else (case data u 0 of
              Some (Name (Some s)) \<Rightarrow> Done s
            | Some (Name None) \<Rightarrow> Abort
            | Some (Ipv4 a) \<Rightarrow> UB
            | Some (Ipv6 a) \<Rightarrow> UB
            | None \<Rightarrow> UB))"

text \<open>
  \<^verbatim>\<open>_nss_mdns_gethostbyaddr_r\<close> from line 254 on, after a query that did not fail.
  \<open>addr\<close> is the object the caller's pointer refers to; \<^verbatim>\<open>memcpy\<close> reads
  \<open>address_length\<close> bytes of it.
\<close>

definition gethostbyaddr_record ::
  "build \<Rightarrow> char list \<Rightarrow> int \<Rightarrow> nat \<Rightarrow> int \<Rightarrow> userdata \<Rightarrow> call_state \<Rightarrow>
   (nss_status \<times> call_state) res" where
  "gethostbyaddr_record b addr af address_length fd u s =
     (let P = sizeof_ptr b; buflen = length (buffer s) in
      rbind (store (buffer s) 0 (ptr_cells P Null)) (\<lambda>m1.
        let r1 = (result s)\<lparr>h_aliases := Buf 0\<rparr>;
            index = P
        in
        rbind (first_name u) (\<lambda>name0.
          if buflen < strlen name0 + 1 + P + address_length + P * 2 then
            finish fd NSS_STATUS_TRYAGAIN
              (s\<lparr>buffer := m1, result := r1, errnop := ERANGE, h_errnop := NO_RECOVERY\<rparr>)
          else
            rbind (store m1 index (map Byte (c_str name0) @ [Byte NUL])) (\<lambda>m2.
              let r2 = r1\<lparr>h_name := Buf index\<rparr>;
                  index = index + (strlen name0 + 1);
                  r3 = r2\<lparr>h_addrtype := af, h_length := int address_length\<rparr>;
                  astart = index
              in
              if length addr < address_length then UB
              else
                rbind (store m2 astart (map Byte (take address_length addr))) (\<lambda>m3.
                  let index = index + address_length in
                  rbind (store m3 index (ptr_cells P (Buf astart))) (\<lambda>m4.
                    rbind (store m4 (index + P) (ptr_cells P Null)) (\<lambda>m5.
                      finish fd NSS_STATUS_SUCCESS
                        (s\<lparr>buffer := m5,
                            result := r3\<lparr>h_addr_list := Buf index\<rparr>\<rparr>))))))))"

text \<open>
  \<^verbatim>\<open>_nss_mdns_gethostbyaddr_r\<close>, lines 188 to 297.  \<open>len\<close> is the length the caller
  states for \<open>addr\<close>.
\<close>

definition gethostbyaddr_r ::
  "build \<Rightarrow> collaborator \<Rightarrow> char list \<Rightarrow> int \<Rightarrow> int \<Rightarrow> call_state \<Rightarrow>
   (nss_status \<times> call_state) res" where
  "gethostbyaddr_r b env addr len af s00 =
     (let P = sizeof_ptr b; buflen = length (buffer s00);
          s = s00\<lparr>errnop := EINVAL, h_errnop := NO_RECOVERY\<rparr>;
          address_length =
            (if af = AF_INET then sizeof_ipv4_address_t else sizeof_ipv6_address_t)
      in
      if len \<noteq> int address_length \<or> family_unsupported b af then
        finish (- 1) NSS_STATUS_UNAVAIL (s\<lparr>errnop := EINVAL, h_errnop := NO_RECOVERY\<rparr>)
      else if buflen < P + address_length then
        finish (- 1) NSS_STATUS_TRYAGAIN (s\<lparr>errnop := ERANGE, h_errnop := NO_RECOVERY\<rparr>)
      else
        let fd = open_fd env;
            s1 = s\<lparr>calls := calls s @ [Open_socket fd]\<rparr>
        in
        if fd < 0 then
          finish fd NSS_STATUS_UNAVAIL
            (s1\<lparr>errnop := open_errno env, h_errnop := NO_RECOVERY\<rparr>)
        else
          let s2 = s1\<lparr>calls := calls s1 @
                       [if af = AF_INET then Query_ipv4 fd addr else Query_ipv6 fd addr]\<rparr>
          in
          rbind (mdns_query_addr (names env) empty_userdata) (\<lambda>u.
            if query_r env < 0 then
              finish fd NSS_STATUS_UNAVAIL
                (s2\<lparr>errnop := ETIMEDOUT, h_errnop := HOST_NOT_FOUND\<rparr>)
            else gethostbyaddr_record b addr af address_length fd u s2))"

section \<open>Auxiliary notions for the proofs\<close>

text \<open>
  A callback accepts with a size function when it leaves a full accumulator alone and
  otherwise counts one entry more and adds the size of the entry to the byte total.
\<close>

definition accepts :: "('a \<Rightarrow> userdata \<Rightarrow> userdata res) \<Rightarrow> ('a \<Rightarrow> int) \<Rightarrow> bool" where
  "accepts cb sz \<longleftrightarrow>
     (\<forall>x u. (MAX_ENTRIES \<le> count u \<longrightarrow> cb x u = Done u) \<and>
            (0 \<le> count u \<and> count u < MAX_ENTRIES \<longrightarrow>
               (\<exists>u'. cb x u = Done u' \<and> count u' = count u + 1 \<and>
                     data_len u' = int32 (data_len u + sz x))))"

text \<open>
  The layout a successful forward lookup leaves in the buffer: the null pointer that ends
  the empty alias list, the name with its NUL, the address block, the pointer array and
  its null terminator; and the number of bytes it takes.
\<close>

definition forward_head :: "nat \<Rightarrow> string \<Rightarrow> memval list" where
  "forward_head P name = ptr_cells P Null @ map Byte (c_str name) @ [Byte NUL]"

definition addr_ptrs :: "nat \<Rightarrow> nat \<Rightarrow> nat \<Rightarrow> nat list \<Rightarrow> memval list" where
  "addr_ptrs P astart w js = concat (map (\<lambda>j. ptr_cells P (Buf (astart + w * j))) js)"

definition forward_image :: "nat \<Rightarrow> string \<Rightarrow> nat \<Rightarrow> userdata \<Rightarrow> memval list" where
  "forward_image P name w u =
     forward_head P name @ union_cells w u (nat (count u)) @
     addr_ptrs P (P + strlen name + 1) w [0..<nat (count u)] @ ptr_cells P Null"

definition forward_required :: "nat \<Rightarrow> string \<Rightarrow> nat \<Rightarrow> nat \<Rightarrow> nat" where
  "forward_required P name w n = P + strlen name + 1 + n * w + P * (n + 1)"

text \<open>The same for a successful reverse lookup: one name and one address.\<close>

definition reverse_image :: "nat \<Rightarrow> string \<Rightarrow> nat \<Rightarrow> char list \<Rightarrow> memval list" where
  "reverse_image P name0 w addr =
     forward_head P name0 @ map Byte (take w addr) @
     ptr_cells P (Buf (P + strlen name0 + 1)) @ ptr_cells P Null"

definition reverse_required :: "nat \<Rightarrow> string \<Rightarrow> nat \<Rightarrow> nat" where
  "reverse_required P name0 w = strlen name0 + 1 + P + w + P * 2"

text \<open>
  The addresses a forward query accumulates, as byte strings in the order of arrival: the
  first \<^verbatim>\<open>MAX_ENTRIES\<close> answers of the requested family.
\<close>

fun answer_bytes :: "int \<Rightarrow> answer \<Rightarrow> char list option" where
  "answer_bytes af (A4 a) = (if af = AF_INET then map_option ipv4_bytes a else None)"
| "answer_bytes af (A6 a) = (if af = AF_INET6 then map_option ipv6_bytes a else None)"

definition accumulated :: "int \<Rightarrow> answer list \<Rightarrow> char list list" where
  "accumulated af as = take (nat MAX_ENTRIES) (List.map_filter (answer_bytes af) as)"

text \<open>The accumulator holds the byte strings \<open>bs\<close>, each of width \<open>w\<close>, in its first slots.\<close>

definition holds :: "nat \<Rightarrow> userdata \<Rightarrow> char list list \<Rightarrow> bool" where
  "holds w u bs \<longleftrightarrow>
     count u = int (length bs) \<and> length bs \<le> nat MAX_ENTRIES \<and>
     data_len u = int w * count u \<and>
     (\<forall>i<length bs. entry_cells w (data u i) = map Byte (bs ! i))"

text \<open>
  A pointer refers to a place strictly inside the buffer; a pointer array at offset \<open>off\<close>
  ends in a null pointer and holds only such pointers before it (\<open>fuel\<close> bounds the
  number of elements looked at); and a record has its three pointers inside the buffer and
  its two arrays of that kind.
\<close>

definition inside :: "memval list \<Rightarrow> ptr \<Rightarrow> bool" where
  "inside m p = (case p of Buf k \<Rightarrow> k < length m | Null \<Rightarrow> False | Foreign a \<Rightarrow> False)"

fun ptr_array_inside :: "nat \<Rightarrow> memval list \<Rightarrow> nat \<Rightarrow> nat \<Rightarrow> bool" where
  "ptr_array_inside P m off 0 = False"
| "ptr_array_inside P m off (Suc fuel) =
     (case load_ptr P m off of
        None \<Rightarrow> False
      | Some Null \<Rightarrow> True
      | Some (Buf k) \<Rightarrow> k < length m \<and> ptr_array_inside P m (off + P) fuel
      | Some (Foreign a) \<Rightarrow> False)"

definition array_inside :: "nat \<Rightarrow> memval list \<Rightarrow> ptr \<Rightarrow> bool" where
  "array_inside P m p =
     (case p of Buf k \<Rightarrow> ptr_array_inside P m k (length m) | Null \<Rightarrow> False | Foreign a \<Rightarrow> False)"

definition record_inside :: "nat \<Rightarrow> call_state \<Rightarrow> bool" where
  "record_inside P s \<longleftrightarrow>
     inside (buffer s) (h_name (result s)) \<and>
     inside (buffer s) (h_aliases (result s)) \<and>
     inside (buffer s) (h_addr_list (result s)) \<and>
     array_inside P (buffer s) (h_aliases (result s)) \<and>
     array_inside P (buffer s) (h_addr_list (result s))"

text \<open>
  The descriptors a sequence of calls opened successfully, and those it closed.
\<close>

fun opened :: "call list \<Rightarrow> int list" where
  "opened [] = []"
| "opened (Open_socket fd # cs) = (if 0 \<le> fd then fd # opened cs else opened cs)"
| "opened (c # cs) = opened cs"

fun closed :: "call list \<Rightarrow> int list" where
  "closed [] = []"
| "closed (Close fd # cs) = fd # closed cs"
| "closed (c # cs) = closed cs"

fun is_query :: "call \<Rightarrow> bool" where
  "is_query (Query_name fd name f4 f6) = True"
| "is_query (Query_ipv4 fd addr) = True"
| "is_query (Query_ipv6 fd addr) = True"
| "is_query c = False"

text \<open>
  The calls of one run are scoped when they are none, or one open that failed, or one open
  that succeeded, one query on the descriptor and the close of that descriptor, in this
  order.  A run keeps the channel discipline when what it adds to the calls made before is
  scoped and the descriptors it closes are those it opened successfully, each once.
\<close>

fun scoped :: "call list \<Rightarrow> bool" where
  "scoped [] = True"
| "scoped [Open_socket fd] = (fd < 0)"
| "scoped [Open_socket fd, q, Close fd'] = (0 \<le> fd \<and> is_query q \<and> fd' = fd)"
| "scoped cs = False"

definition channel_discipline :: "call list \<Rightarrow> call list \<Rightarrow> bool" where
  "channel_discipline before after \<longleftrightarrow>
     take (length before) after = before \<and>
     scoped (drop (length before) after) \<and>
     closed (drop (length before) after) = opened (drop (length before) after)"

text \<open>
  The family of \<^verbatim>\<open>_nss_mdns_gethostbyname_r\<close> in the words of the specification:
  \<^verbatim>\<open>AF_INET6\<close> under \<^verbatim>\<open>NSS_IPV6_ONLY\<close>, \<^verbatim>\<open>AF_INET\<close> otherwise.
\<close>

definition default_family :: "build \<Rightarrow> int" where
  "default_family b = (if NSS_IPV6_ONLY b then AF_INET6 else AF_INET)"

section \<open>A concrete call\<close>

text \<open>
  A build for both families on a machine with 8-byte pointers; a collaborator that opens
  descriptor 3, answers a name query with 10.0.0.5 and 10.0.0.6, answers an address query
  with \<open>printer.local\<close>, and reports success; a caller with a fresh buffer of \<open>n\<close> bytes.
\<close>

definition example_build :: build where
  "example_build = \<lparr>NSS_IPV4_ONLY = False, NSS_IPV6_ONLY = False, sizeof_ptr = 8\<rparr>"

definition example_collaborator :: collaborator where
  "example_collaborator =
     \<lparr>open_fd = 3, open_errno = 0,
      answers = [A4 (Some (IPv4 (CHR 0x0A) (CHR 0x00) (CHR 0x00) (CHR 0x05))),
                 A4 (Some (IPv4 (CHR 0x0A) (CHR 0x00) (CHR 0x00) (CHR 0x06)))],
      names = [(Some ''printer.local'', True)],
      query_r = 0\<rparr>"

definition example_call :: "nat \<Rightarrow> call_state" where
  "example_call n =
     \<lparr>buffer = replicate n Undef,
      result = \<lparr>h_name = Null, h_aliases = Null, h_addrtype = 0, h_length = 0,
                h_addr_list = Null\<rparr>,
      errnop = 0, h_errnop = 0, calls = []\<rparr>"

text \<open>The state in which the forward lookup of \<open>foo.local\<close> ends with a buffer of 50 bytes.\<close>

definition example_success :: call_state where
  "example_success =
     \<lparr>buffer =
        ptr_cells 8 Null @ map Byte ''foo.local'' @ [Byte NUL] @
        map Byte [CHR 0x0A, CHR 0x00, CHR 0x00, CHR 0x05] @
        map Byte [CHR 0x0A, CHR 0x00, CHR 0x00, CHR 0x06] @
        ptr_cells 8 (Buf 18) @ ptr_cells 8 (Buf 22) @ ptr_cells 8 Null,
      result = \<lparr>h_name = Buf 8, h_aliases = Buf 0, h_addrtype = 2, h_length = 4,
                h_addr_list = Buf 26\<rparr>,
      errnop = 0, h_errnop = 0,
      calls = [Open_socket 3, Query_name 3 ''foo.local'' True False, Close 3]\<rparr>"

text \<open>
  The address 192.168.1.1, and the state in which its reverse lookup ends with a buffer of
  42 bytes.
\<close>

definition example_addr :: "char list" where
  "example_addr = [CHR 0xC0, CHR 0xA8, CHR 0x01, CHR 0x01]"

definition example_reverse_success :: call_state where
  "example_reverse_success =
     \<lparr>buffer =
        ptr_cells 8 Null @ map Byte ''printer.local'' @ [Byte NUL] @
        map Byte [CHR 0xC0, CHR 0xA8, CHR 0x01, CHR 0x01] @
        ptr_cells 8 (Buf 22) @ ptr_cells 8 Null,
      result = \<lparr>h_name = Buf 8, h_aliases = Buf 0, h_addrtype = 2, h_length = 4,
                h_addr_list = Buf 26\<rparr>,
      errnop = 22, h_errnop = 3,
      calls = [Open_socket 3, Query_ipv4 3 [CHR 0xC0, CHR 0xA8, CHR 0x01, CHR 0x01], Close 3]\<rparr>"

text \<open>
  The states in which the two lookups end when the buffer is one byte too small: 49 bytes
  for \<open>foo.local\<close>, 41 bytes for 192.168.1.1.
\<close>

definition example_short :: call_state where
  "example_short =
     \<lparr>buffer = ptr_cells 8 Null @ map Byte ''foo.local'' @ [Byte NUL] @ replicate 31 Undef,
      result = \<lparr>h_name = Buf 8, h_aliases = Buf 0, h_addrtype = 2, h_length = 4,
                h_addr_list = Null\<rparr>,
      errnop = 34, h_errnop = 3,
      calls = [Open_socket 3, Query_name 3 ''foo.local'' True False, Close 3]\<rparr>"

definition example_reverse_short :: call_state where
  "example_reverse_short =
     \<lparr>buffer = ptr_cells 8 Null @ replicate 33 Undef,
      result = \<lparr>h_name = Null, h_aliases = Buf 0, h_addrtype = 0, h_length = 0,
                h_addr_list = Null\<rparr>,
      errnop = 34, h_errnop = 3,
      calls = [Open_socket 3, Query_ipv4 3 [CHR 0xC0, CHR 0xA8, CHR 0x01, CHR 0x01], Close 3]\<rparr>"

text \<open>
  Collaborators that fail: one whose open fails with \<^verbatim>\<open>errno\<close> 24, one whose query
  returns \<open>-1\<close>, and one whose address query succeeds without delivering a name.
\<close>

definition example_no_socket :: collaborator where
  "example_no_socket = example_collaborator\<lparr>open_fd := - 1, open_errno := 24\<rparr>"

definition example_timeout :: collaborator where
  "example_timeout = example_collaborator\<lparr>answers := [], names := [], query_r := - 1\<rparr>"

definition example_no_name :: collaborator where
  "example_no_name = example_collaborator\<lparr>names := []\<rparr>"

text \<open>The addresses 10.0.0.5 and 2001:db8::1.\<close>

definition example_ipv4 :: ipv4_address_t where
  "example_ipv4 = IPv4 (CHR 0x0A) (CHR 0x00) (CHR 0x00) (CHR 0x05)"

definition example_ipv6 :: ipv6_address_t where
  "example_ipv6 =
     IPv6 (CHR 0x20) (CHR 0x01) (CHR 0x0D) (CHR 0xB8) (CHR 0x00) (CHR 0x00) (CHR 0x00) (CHR 0x00)
          (CHR 0x00) (CHR 0x00) (CHR 0x00) (CHR 0x00) (CHR 0x00) (CHR 0x00) (CHR 0x00) (CHR 0x01)"

text \<open>The state in which a forward lookup of \<open>foo.local\<close> ends when the query times out.\<close>

definition example_timed_out :: call_state where
  "example_timed_out =
     (example_call 50)\<lparr>errnop := ETIMEDOUT, h_errnop := HOST_NOT_FOUND,
        calls := [Open_socket 3, Query_name 3 ''foo.local'' True False, Close 3]\<rparr>"

section \<open>The accumulator is capped\<close>


lemma int32_id: "- 2147483648 \<le> x \<Longrightarrow> x < 2147483648 \<Longrightarrow> int32 x = x"
  by (simp add: int32_def)

lemma int32_add_left: "int32 (int32 x + y) = int32 (x + y)"
proof -
  have "((x + 2147483648) mod 4294967296 + y) mod 4294967296
        = (x + 2147483648 + y) mod (4294967296::int)"
    by (rule mod_add_left_eq)
  then show ?thesis by (simp add: int32_def ac_simps)
qed

lemma int32_idem: "int32 (int32 x) = int32 x"
  using int32_add_left [of x 0] by simp

lemma accepts_ipv4: "accepts (ipv4_callback \<circ> Some) (\<lambda>a. int sizeof_ipv4_address_t)"
  by (simp add: accepts_def ipv4_callback_def)

lemma accepts_ipv6: "accepts (ipv6_callback \<circ> Some) (\<lambda>a. int sizeof_ipv6_address_t)"
  by (simp add: accepts_def ipv6_callback_def)

lemma accepts_name:
  "accepts (\<lambda>(s, ok). name_callback (Some s) ok) (\<lambda>(s, ok). int (strlen s) + 1)"
  by (simp add: accepts_def name_callback_def split: prod.splits)

lemma offer_all_map: "offer_all cb (map f xs) u = offer_all (cb \<circ> f) xs u"
proof (induction xs arbitrary: u)
  case Nil
  show ?case by simp
next
  case (Cons x xs)
  show ?case by (cases "cb (f x) u") (simp_all add: Cons.IH)
qed

lemma offer_all_full:
  assumes "accepts cb sz" and "MAX_ENTRIES \<le> count u"
  shows "offer_all cb xs u = Done u"
  using assms by (induction xs) (simp_all add: accepts_def)

lemma offer_all_accepts:
  assumes acc: "accepts cb sz"
  shows "0 \<le> count u \<Longrightarrow> count u \<le> MAX_ENTRIES \<Longrightarrow> int32 (data_len u) = data_len u \<Longrightarrow>
     \<exists>u'. offer_all cb (take (nat (MAX_ENTRIES - count u)) xs) u = Done u' \<and>
          offer_all cb xs u = Done u' \<and>
          count u' = min MAX_ENTRIES (count u + int (length xs)) \<and>
          data_len u' = int32 (data_len u + (\<Sum>x\<leftarrow>take (nat (MAX_ENTRIES - count u)) xs. sz x))"
proof (induction xs arbitrary: u)
  case Nil
  then show ?case by simp
next
  case (Cons x xs)
  show ?case
  proof (cases "count u = MAX_ENTRIES")
    case True
    then show ?thesis
      using offer_all_full [OF acc, of u "x # xs"] Cons.prems(3) by simp
  next
    case False
    with Cons.prems have lt: "count u < MAX_ENTRIES" by simp
    with acc Cons.prems obtain u1 where
      u1: "cb x u = Done u1" "count u1 = count u + 1"
          "data_len u1 = int32 (data_len u + sz x)"
      unfolding accepts_def by blast
    have n: "nat (MAX_ENTRIES - count u) = Suc (nat (MAX_ENTRIES - count u1))"
      using lt Cons.prems u1(2) by simp
    from u1 lt Cons.prems have "0 \<le> count u1" "count u1 \<le> MAX_ENTRIES"
      "int32 (data_len u1) = data_len u1" by (simp_all add: int32_idem)
    from Cons.IH [OF this] obtain u' where
      u': "offer_all cb (take (nat (MAX_ENTRIES - count u1)) xs) u1 = Done u'"
          "offer_all cb xs u1 = Done u'"
          "count u' = min MAX_ENTRIES (count u1 + int (length xs))"
          "data_len u' = int32 (data_len u1 + (\<Sum>x\<leftarrow>take (nat (MAX_ENTRIES - count u1)) xs. sz x))"
      by blast
    have "data_len u' = int32 (data_len u + (\<Sum>x\<leftarrow>take (nat (MAX_ENTRIES - count u)) (x # xs). sz x))"
      unfolding n u'(4) u1(3) by (simp add: int32_add_left add.assoc)
    then show ?thesis
      using u1 u' unfolding n by simp
  qed
qed

lemma offer_all_from_empty:
  assumes acc: "accepts cb sz" and u0: "count u0 = 0" "data_len u0 = 0"
    and len: "length xs = nat MAX_ENTRIES + K" "0 < K"
  shows "\<exists>u. offer_all cb xs u0 = Done u \<and> count u = MAX_ENTRIES \<and>
             data_len u = int32 (\<Sum>x\<leftarrow>take (nat MAX_ENTRIES) xs. sz x) \<and>
             offer_all cb (take (nat MAX_ENTRIES) xs) u0 = Done u"
proof -
  have "0 \<le> count u0" "count u0 \<le> MAX_ENTRIES" "int32 (data_len u0) = data_len u0"
    using u0 by (simp_all add: MAX_ENTRIES_def int32_def)
  from offer_all_accepts [OF acc this, of xs] show ?thesis
    using u0 len by (auto simp: MAX_ENTRIES_def)
qed

text \<open>
  C6.  Starting from an empty accumulator (count and byte total zero), \<open>CAP + K\<close> offers of
  one kind with \<open>K > 0\<close> and \<open>CAP = MAX_ENTRIES = 16\<close> leave the count at \<open>CAP\<close> and the byte
  total at the sum of the sizes of the first \<open>CAP\<close> entries offered: the width of the
  address for \<^verbatim>\<open>ipv4_callback\<close> and \<^verbatim>\<open>ipv6_callback\<close>, the length of the string plus one
  for \<^verbatim>\<open>name_callback\<close>.  The entries after the first \<open>CAP\<close> change nothing: offering the
  first \<open>CAP\<close> alone ends in the same accumulator.  The byte total is a C \<^verbatim>\<open>int\<close>: for
  names it is the sum reduced to 32 bits, which is the sum itself as long as that is
  below \<open>2^31\<close>; the totals of addresses never reach that bound.
\<close>

theorem accumulator_cap:
  assumes "count u0 = 0" and "data_len u0 = 0" and "0 < K"
  shows
    "(length as = nat MAX_ENTRIES + K \<longrightarrow>
        (\<exists>u. offer_all ipv4_callback (map Some as) u0 = Done u \<and>
             count u = MAX_ENTRIES \<and>
             data_len u = (\<Sum>a\<leftarrow>take (nat MAX_ENTRIES) as. int sizeof_ipv4_address_t) \<and>
             offer_all ipv4_callback (map Some (take (nat MAX_ENTRIES) as)) u0 = Done u)) \<and>
     (length bs = nat MAX_ENTRIES + K \<longrightarrow>
        (\<exists>u. offer_all ipv6_callback (map Some bs) u0 = Done u \<and>
             count u = MAX_ENTRIES \<and>
             data_len u = (\<Sum>b\<leftarrow>take (nat MAX_ENTRIES) bs. int sizeof_ipv6_address_t) \<and>
             offer_all ipv6_callback (map Some (take (nat MAX_ENTRIES) bs)) u0 = Done u)) \<and>
     (length ns = nat MAX_ENTRIES + K \<longrightarrow>
        (\<exists>u. offer_all (\<lambda>(s, ok). name_callback (Some s) ok) ns u0 = Done u \<and>
             count u = MAX_ENTRIES \<and>
             data_len u = int32 (\<Sum>(s, ok)\<leftarrow>take (nat MAX_ENTRIES) ns. int (strlen s) + 1) \<and>
             ((\<Sum>(s, ok)\<leftarrow>take (nat MAX_ENTRIES) ns. int (strlen s) + 1) < 2147483648 \<longrightarrow>
                data_len u = (\<Sum>(s, ok)\<leftarrow>take (nat MAX_ENTRIES) ns. int (strlen s) + 1)) \<and>
             offer_all (\<lambda>(s, ok). name_callback (Some s) ok) (take (nat MAX_ENTRIES) ns) u0 = Done u))"
proof (intro conjI impI)
  assume len: "length as = nat MAX_ENTRIES + K"
  have "(\<Sum>a\<leftarrow>take (nat MAX_ENTRIES) as. int sizeof_ipv4_address_t) = 64"
    using len by (simp add: sum_list_triv MAX_ENTRIES_def sizeof_ipv4_address_t_def)
  then show "\<exists>u. offer_all ipv4_callback (map Some as) u0 = Done u \<and>
             count u = MAX_ENTRIES \<and>
             data_len u = (\<Sum>a\<leftarrow>take (nat MAX_ENTRIES) as. int sizeof_ipv4_address_t) \<and>
             offer_all ipv4_callback (map Some (take (nat MAX_ENTRIES) as)) u0 = Done u"
    using offer_all_from_empty [OF accepts_ipv4 assms(1,2) len assms(3)]
    by (simp add: offer_all_map int32_def)
next
  assume len: "length bs = nat MAX_ENTRIES + K"
  have "(\<Sum>b\<leftarrow>take (nat MAX_ENTRIES) bs. int sizeof_ipv6_address_t) = 256"
    using len by (simp add: sum_list_triv MAX_ENTRIES_def sizeof_ipv6_address_t_def)
  then show "\<exists>u. offer_all ipv6_callback (map Some bs) u0 = Done u \<and>
             count u = MAX_ENTRIES \<and>
             data_len u = (\<Sum>b\<leftarrow>take (nat MAX_ENTRIES) bs. int sizeof_ipv6_address_t) \<and>
             offer_all ipv6_callback (map Some (take (nat MAX_ENTRIES) bs)) u0 = Done u"
    using offer_all_from_empty [OF accepts_ipv6 assms(1,2) len assms(3)]
    by (simp add: offer_all_map int32_def)
next
  assume len: "length ns = nat MAX_ENTRIES + K"
  let ?S = "\<Sum>(s, ok)\<leftarrow>take (nat MAX_ENTRIES) ns. int (strlen s) + 1"
  have nonneg: "0 \<le> ?S"
    by (rule sum_list_nonneg) (auto split: prod.splits)
  have "?S < 2147483648 \<longrightarrow> int32 ?S = ?S"
    using nonneg by (simp add: int32_id)
  then show "\<exists>u. offer_all (\<lambda>(s, ok). name_callback (Some s) ok) ns u0 = Done u \<and>
             count u = MAX_ENTRIES \<and>
             data_len u = int32 ?S \<and>
             (?S < 2147483648 \<longrightarrow> data_len u = ?S) \<and>
             offer_all (\<lambda>(s, ok). name_callback (Some s) ok) (take (nat MAX_ENTRIES) ns) u0 = Done u"
    using offer_all_from_empty [OF accepts_name assms(1,2) len assms(3)]
    by auto
qed

text \<open>
  Seventeen offers of 10.0.0.5, of 2001:db8::1 and of the name \<open>a\<close>: sixteen are
  counted each time, with 64, 256 and 32 bytes.
\<close>

theorem accumulator_cap_witness:
  "(\<exists>u. offer_all ipv4_callback (map Some (replicate 17 example_ipv4)) empty_userdata = Done u \<and>
        count u = 16 \<and> data_len u = 64) \<and>
   (\<exists>u. offer_all ipv6_callback (map Some (replicate 17 example_ipv6)) empty_userdata = Done u \<and>
        count u = 16 \<and> data_len u = 256) \<and>
   (\<exists>u. offer_all (\<lambda>(s, ok). name_callback (Some s) ok) (replicate 17 (''a'', True))
            empty_userdata = Done u \<and>
        count u = 16 \<and> data_len u = 32)"
proof -
  have e: "count empty_userdata = 0" "data_len empty_userdata = 0"
    by (simp_all add: empty_userdata_def)
  have s: "strlen ''a'' = 1"
    by (simp add: strlen_def c_str_def NUL_def)
  show ?thesis
    using accumulator_cap [OF e, of 1 "replicate 17 example_ipv4" "replicate 17 example_ipv6"
        "replicate 17 (''a'', True)"]
    by (auto simp: MAX_ENTRIES_def sizeof_ipv4_address_t_def sizeof_ipv6_address_t_def s
        sum_list_replicate)
qed

section \<open>Stores into the buffer\<close>


declare addr_array_loop.simps [simp del]

lemma rbind_Done_iff: "rbind x f = Done y \<longleftrightarrow> (\<exists>a. x = Done a \<and> f a = Done y)"
  by (cases x) simp_all

lemma length_ptr_cells [simp]: "length (ptr_cells n p) = n"
  by (simp add: ptr_cells_def)

lemma length_ipv4_bytes [simp]: "length (ipv4_bytes a) = 4"
  by (cases a) simp

lemma length_ipv6_bytes [simp]: "length (ipv6_bytes a) = 16"
  by (cases a) simp

lemma length_entry_cells [simp]: "length (entry_cells w e) = w"
  by (auto simp: entry_cells_def sizeof_ipv4_address_t_def sizeof_ipv6_address_t_def
      split: option.splits entry.splits)

lemma length_union_cells [simp]: "length (union_cells w u n) = n * w"
  by (simp add: union_cells_def length_concat comp_def sum_list_triv)

lemma length_addr_ptrs [simp]: "length (addr_ptrs P astart w js) = length js * P"
  by (simp add: addr_ptrs_def length_concat comp_def sum_list_triv)

lemma length_forward_head [simp]: "length (forward_head P name) = P + strlen name + 1"
  by (simp add: forward_head_def strlen_def)

lemma length_forward_image:
  "length (forward_image P name w u) = forward_required P name w (nat (count u))"
  by (simp add: forward_image_def forward_required_def algebra_simps)

lemma store_prefix:
  assumes "off = length pre" and "off \<le> length m0"
  shows "store (pre @ drop off m0) off vs =
           (if off + length vs \<le> length m0
            then Done ((pre @ vs) @ drop (off + length vs) m0) else UB)"
  using assms by (simp add: store_def add.commute)

lemma store_start:
  "store m0 0 vs = (if length vs \<le> length m0 then Done (vs @ drop (length vs) m0) else UB)"
  using store_prefix [of 0 "[]" m0 vs] by simp

lemma addr_array_loop_prefix:
  assumes "0 \<le> i" and "i \<le> n" and "length pre = index + P * nat i"
    and "index + P * nat n \<le> length m0"
  shows "addr_array_loop P index astart w n i (pre @ drop (length pre) m0) =
           Done (n, (pre @ addr_ptrs P astart w [nat i..<nat n]) @ drop (index + P * nat n) m0)"
  using assms
proof (induction "nat (n - i)" arbitrary: i pre)
  case 0
  then have "i = n" by simp
  then show ?case
    using "0.prems" by (subst addr_array_loop.simps) (simp add: addr_ptrs_def)
next
  case (Suc k)
  then have lt: "i < n" by simp
  let ?cells = "ptr_cells P (Buf (astart + w * nat i))"
  have le: "index + P * nat i + P \<le> index + P * nat n"
  proof -
    have "nat i + 1 \<le> nat n" using lt Suc.prems by simp
    then have "P * (nat i + 1) \<le> P * nat n" by (rule mult_le_mono2)
    then show ?thesis by (simp add: algebra_simps)
  qed
  have st: "store (pre @ drop (length pre) m0) (index + P * nat i) ?cells =
              Done ((pre @ ?cells) @ drop (length (pre @ ?cells)) m0)"
    using store_prefix [of "index + P * nat i" pre m0 ?cells] Suc.prems le by simp
  have k: "k = nat (n - (i + 1))" using Suc.hyps(2) by simp
  have len: "length (pre @ ?cells) = index + P * nat (i + 1)"
    using Suc.prems by (simp add: nat_add_distrib algebra_simps)
  have ih: "addr_array_loop P index astart w n (i + 1) ((pre @ ?cells) @ drop (length (pre @ ?cells)) m0) =
           Done (n, ((pre @ ?cells) @ addr_ptrs P astart w [nat (i + 1)..<nat n]) @ drop (index + P * nat n) m0)"
    using Suc.hyps(1) [OF k _ _ len] Suc.prems lt by simp
  have upt: "[nat i..<nat n] = nat i # [nat (i + 1)..<nat n]"
    using lt Suc.prems by (simp add: upt_conv_Cons nat_add_distrib)
  have "addr_array_loop P index astart w n i (pre @ drop (length pre) m0) =
        addr_array_loop P index astart w n (i + 1)
          ((pre @ ?cells) @ drop (length (pre @ ?cells)) m0)"
    by (subst addr_array_loop.simps) (simp only: lt if_True st res.case)
  also note ih
  also have "(pre @ ?cells) @ addr_ptrs P astart w [nat (i + 1)..<nat n] =
             pre @ addr_ptrs P astart w [nat i..<nat n]"
    by (simp add: upt addr_ptrs_def)
  finally show ?case .
qed



lemma record_char:
  assumes cnt: "0 \<le> count u" and dl: "data_len u = int w * count u"
    and coarse: "sizeof_ptr b + strlen name + 1 \<le> length (buffer s)"
  shows "gethostbyname2_record b name af w fd u s =
     (if length (buffer s) < forward_required (sizeof_ptr b) name w (nat (count u))
      then finish fd NSS_STATUS_TRYAGAIN
             (s\<lparr>buffer := forward_head (sizeof_ptr b) name @
                             drop (sizeof_ptr b + strlen name + 1) (buffer s),
                 result := (result s)\<lparr>h_aliases := Buf 0, h_name := Buf (sizeof_ptr b),
                             h_addrtype := af, h_length := int w\<rparr>,
                 errnop := ERANGE, h_errnop := NO_RECOVERY\<rparr>)
      else finish fd NSS_STATUS_SUCCESS
             (s\<lparr>buffer := forward_image (sizeof_ptr b) name w u @
                             drop (forward_required (sizeof_ptr b) name w (nat (count u))) (buffer s),
                 result := (result s)\<lparr>h_aliases := Buf 0, h_name := Buf (sizeof_ptr b),
                             h_addrtype := af, h_length := int w,
                             h_addr_list :=
                               Buf (sizeof_ptr b + strlen name + 1 + nat (count u) * w)\<rparr>\<rparr>))"
proof -
  let ?P = "sizeof_ptr b" and ?L = "strlen name" and ?m0 = "buffer s" and ?n = "nat (count u)"
  let ?nm = "map Byte (c_str name) @ [Byte NUL]"
  let ?i1 = "?P + (?L + 1)"
  let ?req = "forward_required ?P name w ?n"
  let ?uc = "union_cells w u ?n"
  let ?ap = "addr_ptrs ?P ?i1 w [0..<?n]"
  have i1: "?i1 = ?P + ?L + 1" by simp
  have s1: "store ?m0 0 (ptr_cells ?P Null) = Done (ptr_cells ?P Null @ drop ?P ?m0)"
    using coarse by (simp add: store_start)
  have s2: "store (ptr_cells ?P Null @ drop ?P ?m0) ?P ?nm =
              Done (forward_head ?P name @ drop ?i1 ?m0)"
    using store_prefix [of ?P "ptr_cells ?P Null" ?m0 ?nm] coarse
    by (simp add: forward_head_def strlen_def)
  have chk: "?i1 + nat (data_len u) + ?P * nat (count u + 1) = ?req"
    using cnt by (simp add: dl forward_required_def nat_add_distrib nat_mult_distrib mult.commute)
  have tk: "take (?n * w) (union_cells w u ?n) = ?uc" by simp
  show ?thesis
  proof (cases "length ?m0 < ?req")
    case True
    have "gethostbyname2_record b name af w fd u s =
          finish fd NSS_STATUS_TRYAGAIN
            (s\<lparr>buffer := forward_head ?P name @ drop ?i1 ?m0,
                result := (result s)\<lparr>h_aliases := Buf 0, h_name := Buf ?P,
                             h_addrtype := af, h_length := int w\<rparr>,
                errnop := ERANGE, h_errnop := NO_RECOVERY\<rparr>)"
      unfolding gethostbyname2_record_def Let_def
      by (simp only: s1 s2 rbind.simps chk True if_True)
    then show ?thesis using True by (simp only: if_True i1)
  next
    case False
    then have fits: "?req \<le> length ?m0" by simp
    have s3: "store (forward_head ?P name @ drop ?i1 ?m0) ?i1 ?uc =
                Done ((forward_head ?P name @ ?uc) @ drop (?i1 + ?n * w) ?m0)"
      using store_prefix [of ?i1 "forward_head ?P name" ?m0 ?uc] fits
      by (simp add: forward_required_def)
    have lp: "addr_array_loop ?P (?i1 + ?n * w) ?i1 w (count u) 0
                ((forward_head ?P name @ ?uc) @ drop (?i1 + ?n * w) ?m0) =
              Done (count u, ((forward_head ?P name @ ?uc) @ ?ap) @
                       drop (?i1 + ?n * w + ?P * nat (count u)) ?m0)"
      using addr_array_loop_prefix [of 0 "count u" "forward_head ?P name @ ?uc"
          "?i1 + ?n * w" ?P ?m0 ?i1 w] fits cnt
      by (simp add: forward_required_def)
    have s5: "store (((forward_head ?P name @ ?uc) @ ?ap) @
                       drop (?i1 + ?n * w + ?P * nat (count u)) ?m0)
                (?i1 + ?n * w + ?P * nat (count u)) (ptr_cells ?P Null) =
              Done (forward_image ?P name w u @ drop ?req ?m0)"
      using store_prefix [of "?i1 + ?n * w + ?P * ?n"
          "(forward_head ?P name @ ?uc) @ ?ap" ?m0 "ptr_cells ?P Null"] fits
      by (simp add: forward_required_def forward_image_def algebra_simps)
    have "gethostbyname2_record b name af w fd u s =
          finish fd NSS_STATUS_SUCCESS
            (s\<lparr>buffer := forward_image ?P name w u @ drop ?req ?m0,
                result := (result s)\<lparr>h_aliases := Buf 0, h_name := Buf ?P,
                             h_addrtype := af, h_length := int w,
                             h_addr_list := Buf (?i1 + ?n * w)\<rparr>\<rparr>)"
      unfolding gethostbyname2_record_def Let_def
      by (simp only: s1 s2 rbind.simps chk False if_False tk s3 lp prod.case s5)
    then show ?thesis using False by (simp only: if_False i1)
  qed
qed


section \<open>What a query leaves in the accumulator\<close>


lemma holds_empty: "holds w empty_userdata []"
  by (simp add: holds_def empty_userdata_def)

lemma holds_count: "holds w u bs \<Longrightarrow> 0 \<le> count u \<and> count u \<le> MAX_ENTRIES \<and> nat (count u) = length bs"
  by (auto simp: holds_def MAX_ENTRIES_def)

lemma holds_union_cells:
  assumes "holds w u bs"
  shows "union_cells w u (nat (count u)) = concat (map (map Byte) bs)"
proof -
  have "map (\<lambda>i. entry_cells w (data u i)) [0..<length bs] = map (map Byte) bs"
    using assms by (intro nth_equalityI) (simp_all add: holds_def)
  then show ?thesis
    using assms by (simp add: union_cells_def holds_def)
qed

lemma holds_full:
  assumes "holds w u bs" and "MAX_ENTRIES \<le> count u"
  shows "take (nat MAX_ENTRIES) (bs @ cs) = bs"
  using assms by (simp add: holds_def MAX_ENTRIES_def)

lemma ipv4_callback_holds:
  assumes h: "holds sizeof_ipv4_address_t u bs"
  shows "(MAX_ENTRIES \<le> count u \<longrightarrow> ipv4_callback (Some a) u = Done u) \<and>
         (count u < MAX_ENTRIES \<longrightarrow>
            (\<exists>u'. ipv4_callback (Some a) u = Done u' \<and>
                  holds sizeof_ipv4_address_t u' (bs @ [ipv4_bytes a])))"
proof (intro conjI impI)
  assume "MAX_ENTRIES \<le> count u"
  then show "ipv4_callback (Some a) u = Done u" by (simp add: ipv4_callback_def)
next
  assume lt: "count u < MAX_ENTRIES"
  let ?u' = "u\<lparr>count := count u + 1,
                data := (data u)(nat (count u) \<mapsto> Ipv4 a),
                data_len := int32 (data_len u + int sizeof_ipv4_address_t)\<rparr>"
  from h have c: "count u = int (length bs)" "data_len u = int sizeof_ipv4_address_t * count u"
    and d: "\<forall>i<length bs. entry_cells sizeof_ipv4_address_t (data u i) = map Byte (bs ! i)"
    by (simp_all add: holds_def)
  have run: "ipv4_callback (Some a) u = Done ?u'"
    using lt c by (simp add: ipv4_callback_def)
  have dl: "int32 (data_len u + int sizeof_ipv4_address_t) = int sizeof_ipv4_address_t * (count u + 1)"
    using lt c by (simp add: int32_def MAX_ENTRIES_def sizeof_ipv4_address_t_def)
  have "holds sizeof_ipv4_address_t ?u' (bs @ [ipv4_bytes a])"
    unfolding holds_def using lt c d dl
    by (auto simp: MAX_ENTRIES_def nth_append entry_cells_def less_Suc_eq)
  with run show "\<exists>u'. ipv4_callback (Some a) u = Done u' \<and>
                  holds sizeof_ipv4_address_t u' (bs @ [ipv4_bytes a])" by blast
qed

lemma ipv6_callback_holds:
  assumes h: "holds sizeof_ipv6_address_t u bs"
  shows "(MAX_ENTRIES \<le> count u \<longrightarrow> ipv6_callback (Some a) u = Done u) \<and>
         (count u < MAX_ENTRIES \<longrightarrow>
            (\<exists>u'. ipv6_callback (Some a) u = Done u' \<and>
                  holds sizeof_ipv6_address_t u' (bs @ [ipv6_bytes a])))"
proof (intro conjI impI)
  assume "MAX_ENTRIES \<le> count u"
  then show "ipv6_callback (Some a) u = Done u" by (simp add: ipv6_callback_def)
next
  assume lt: "count u < MAX_ENTRIES"
  let ?u' = "u\<lparr>count := count u + 1,
                data := (data u)(nat (count u) \<mapsto> Ipv6 a),
                data_len := int32 (data_len u + int sizeof_ipv6_address_t)\<rparr>"
  from h have c: "count u = int (length bs)" "data_len u = int sizeof_ipv6_address_t * count u"
    and d: "\<forall>i<length bs. entry_cells sizeof_ipv6_address_t (data u i) = map Byte (bs ! i)"
    by (simp_all add: holds_def)
  have run: "ipv6_callback (Some a) u = Done ?u'"
    using lt c by (simp add: ipv6_callback_def)
  have dl: "int32 (data_len u + int sizeof_ipv6_address_t) = int sizeof_ipv6_address_t * (count u + 1)"
    using lt c by (simp add: int32_def MAX_ENTRIES_def sizeof_ipv6_address_t_def)
  have "holds sizeof_ipv6_address_t ?u' (bs @ [ipv6_bytes a])"
    unfolding holds_def using lt c d dl
    by (auto simp: MAX_ENTRIES_def nth_append entry_cells_def less_Suc_eq)
  with run show "\<exists>u'. ipv6_callback (Some a) u = Done u' \<and>
                  holds sizeof_ipv6_address_t u' (bs @ [ipv6_bytes a])" by blast
qed


lemma AF_distinct: "AF_INET \<noteq> AF_INET6"
  by (simp add: AF_INET_def AF_INET6_def)

lemma mdns_query_name_holds:
  assumes fam: "af = AF_INET \<or> af = AF_INET6"
  shows "holds (if af = AF_INET then sizeof_ipv4_address_t else sizeof_ipv6_address_t) u bs \<Longrightarrow>
     (case mdns_query_name as (af = AF_INET) (af = AF_INET6) u of
        Done u' \<Rightarrow>
          holds (if af = AF_INET then sizeof_ipv4_address_t else sizeof_ipv6_address_t) u'
            (take (nat MAX_ENTRIES) (bs @ List.map_filter (answer_bytes af) as))
      | Abort \<Rightarrow> True
      | UB \<Rightarrow> False)"
proof (induction as arbitrary: u bs)
  case Nil
  then show ?case by (simp add: holds_def)
next
  case (Cons x as)
  let ?w = "if af = AF_INET then sizeof_ipv4_address_t else sizeof_ipv6_address_t"
  note h = Cons.prems
  show ?case
  proof (cases x)
    case (A4 a)
    show ?thesis
    proof (cases "af = AF_INET")
      case True
      then have w: "?w = sizeof_ipv4_address_t" and no: "(af = AF_INET6) = False"
        using AF_distinct by simp_all
      show ?thesis
      proof (cases a)
        case None
        then show ?thesis using A4 True by (simp add: ipv4_callback_def)
      next
        case (Some a')
        have mf: "List.map_filter (answer_bytes af) (x # as) =
                  ipv4_bytes a' # List.map_filter (answer_bytes af) as"
          using A4 Some True by simp
        show ?thesis
        proof (cases "MAX_ENTRIES \<le> count u")
          case full: True
          then have cb: "ipv4_callback (Some a') u = Done u"
            using ipv4_callback_holds [of u bs a'] h w by simp
          have q: "mdns_query_name (x # as) (af = AF_INET) (af = AF_INET6) u =
                   mdns_query_name as (af = AF_INET) (af = AF_INET6) u"
            using A4 Some True no cb by simp
          have t: "take (nat MAX_ENTRIES) (bs @ ipv4_bytes a' # List.map_filter (answer_bytes af) as) = bs"
            "take (nat MAX_ENTRIES) (bs @ List.map_filter (answer_bytes af) as) = bs"
            using holds_full [OF h full] by simp_all
          show ?thesis
            using Cons.IH [OF h] by (simp only: q mf t)
        next
          case False
          then obtain u1 where u1: "ipv4_callback (Some a') u = Done u1"
            "holds sizeof_ipv4_address_t u1 (bs @ [ipv4_bytes a'])"
            using ipv4_callback_holds [of u bs a'] h w by auto
          from u1(2) w have h1: "holds ?w u1 (bs @ [ipv4_bytes a'])" by simp
          have q: "mdns_query_name (x # as) (af = AF_INET) (af = AF_INET6) u =
                   mdns_query_name as (af = AF_INET) (af = AF_INET6) u1"
            using A4 Some True no u1(1) by simp
          have l: "(bs @ [ipv4_bytes a']) @ List.map_filter (answer_bytes af) as =
                   bs @ ipv4_bytes a' # List.map_filter (answer_bytes af) as"
            by simp
          show ?thesis
            using Cons.IH [OF h1] by (simp only: q mf l)
        qed
      qed
    next
      case False
      then have mf: "List.map_filter (answer_bytes af) (x # as) =
                     List.map_filter (answer_bytes af) as"
        and q: "mdns_query_name (x # as) (af = AF_INET) (af = AF_INET6) u =
                mdns_query_name as (af = AF_INET) (af = AF_INET6) u"
        using A4 by simp_all
      show ?thesis
        using Cons.IH [OF h] by (simp only: q mf)
    qed
  next
    case (A6 a)
    show ?thesis
    proof (cases "af = AF_INET6")
      case True
      then have w: "?w = sizeof_ipv6_address_t" and no: "(af = AF_INET) = False"
        using AF_distinct by simp_all
      show ?thesis
      proof (cases a)
        case None
        then show ?thesis using A6 True by (simp add: ipv6_callback_def)
      next
        case (Some a')
        have mf: "List.map_filter (answer_bytes af) (x # as) =
                  ipv6_bytes a' # List.map_filter (answer_bytes af) as"
          using A6 Some True by simp
        show ?thesis
        proof (cases "MAX_ENTRIES \<le> count u")
          case full: True
          then have cb: "ipv6_callback (Some a') u = Done u"
            using ipv6_callback_holds [of u bs a'] h w by simp
          have q: "mdns_query_name (x # as) (af = AF_INET) (af = AF_INET6) u =
                   mdns_query_name as (af = AF_INET) (af = AF_INET6) u"
            using A6 Some True no cb by simp
          have t: "take (nat MAX_ENTRIES) (bs @ ipv6_bytes a' # List.map_filter (answer_bytes af) as) = bs"
            "take (nat MAX_ENTRIES) (bs @ List.map_filter (answer_bytes af) as) = bs"
            using holds_full [OF h full] by simp_all
          show ?thesis
            using Cons.IH [OF h] by (simp only: q mf t)
        next
          case False
          then obtain u1 where u1: "ipv6_callback (Some a') u = Done u1"
            "holds sizeof_ipv6_address_t u1 (bs @ [ipv6_bytes a'])"
            using ipv6_callback_holds [of u bs a'] h w by auto
          from u1(2) w have h1: "holds ?w u1 (bs @ [ipv6_bytes a'])" by simp
          have q: "mdns_query_name (x # as) (af = AF_INET) (af = AF_INET6) u =
                   mdns_query_name as (af = AF_INET) (af = AF_INET6) u1"
            using A6 Some True no u1(1) by simp
          have l: "(bs @ [ipv6_bytes a']) @ List.map_filter (answer_bytes af) as =
                   bs @ ipv6_bytes a' # List.map_filter (answer_bytes af) as"
            by simp
          show ?thesis
            using Cons.IH [OF h1] by (simp only: q mf l)
        qed
      qed
    next
      case False
      then have mf: "List.map_filter (answer_bytes af) (x # as) =
                     List.map_filter (answer_bytes af) as"
        and q: "mdns_query_name (x # as) (af = AF_INET) (af = AF_INET6) u =
                mdns_query_name as (af = AF_INET) (af = AF_INET6) u"
        using A6 by simp_all
      show ?thesis
        using Cons.IH [OF h] by (simp only: q mf)
    qed
  qed
qed

lemma query_from_empty:
  assumes fam: "af = AF_INET \<or> af = AF_INET6"
    and run: "mdns_query_name as (af = AF_INET) (af = AF_INET6) empty_userdata = Done u"
  shows "holds (if af = AF_INET then sizeof_ipv4_address_t else sizeof_ipv6_address_t) u
           (accumulated af as)"
  using mdns_query_name_holds [OF fam, of empty_userdata "[]" as] run
  by (simp add: holds_empty accumulated_def)

lemma query_from_empty_defined:
  assumes fam: "af = AF_INET \<or> af = AF_INET6"
  shows "mdns_query_name as (af = AF_INET) (af = AF_INET6) empty_userdata \<noteq> UB"
  using mdns_query_name_holds [OF fam, of empty_userdata "[]" as]
  by (auto simp: holds_empty)

lemma supported_family: "\<not> family_unsupported b af \<Longrightarrow> af = AF_INET \<or> af = AF_INET6"
  by (auto simp: family_unsupported_def split: if_splits)


section \<open>Reading the record back\<close>


lemma load_at:
  assumes "length pre = off"
  shows "load (pre @ vs @ rest) off (length vs) = Some vs"
  using assms by (simp add: load_def)

lemma load_ptr_at:
  assumes "0 < P" and "length pre = off"
  shows "load_ptr P (pre @ ptr_cells P p @ rest) off = Some p"
proof -
  have l: "load (pre @ ptr_cells P p @ rest) off P = Some (ptr_cells P p)"
    using load_at [OF assms(2), of "ptr_cells P p" rest] by simp
  obtain tl where c: "ptr_cells P p = PtrFrag p 0 # tl"
    using assms(1) by (cases P) (simp_all add: ptr_cells_def upt_conv_Cons del: upt_Suc)
  show ?thesis
    unfolding load_ptr_def l by (simp add: c)
qed

lemma those_bytes: "those (map (byte_of \<circ> Byte) bs) = Some bs"
  by (induction bs) simp_all

lemma load_bytes_at:
  assumes "length pre = off"
  shows "load_bytes (pre @ map Byte bs @ rest) off (length bs) = Some bs"
  using load_at [OF assms, of "map Byte bs" rest] by (simp add: load_bytes_def those_bytes)

lemma c_str_no_NUL: "NUL \<notin> set (c_str s)"
  unfolding c_str_def by (induction s) auto

lemma takeWhile_bytes:
  assumes "NUL \<notin> set cs"
  shows "takeWhile (\<lambda>v. v \<noteq> Byte NUL) (map Byte cs @ Byte NUL # rest) = map Byte cs"
  using assms by (induction cs) auto

lemma load_cstring_at:
  assumes "length pre = off" and "NUL \<notin> set cs"
  shows "load_cstring (pre @ map Byte cs @ [Byte NUL] @ rest) off = Some cs"
  using assms by (simp add: load_cstring_def takeWhile_bytes those_bytes)


lemma addr_ptrs_split:
  assumes "i < n"
  shows "addr_ptrs P a w [0..<n] =
           addr_ptrs P a w [0..<i] @ ptr_cells P (Buf (a + w * i)) @ addr_ptrs P a w [Suc i..<n]"
proof -
  have "[0..<n] = [0..<i] @ i # [Suc i..<n]"
    using assms by (metis less_imp_le_nat upt_add_eq_append upt_conv_Cons le_add_diff_inverse zero_le)
  then show ?thesis by (simp add: addr_ptrs_def)
qed

lemma bytes_split:
  assumes "i < length bs"
  shows "concat (map (map Byte) bs) =
           concat (map (map Byte) (take i bs)) @ map Byte (bs ! i) @
           concat (map (map Byte) (drop (Suc i) bs))"
proof -
  have "bs = take i bs @ bs ! i # drop (Suc i) bs"
    using assms by (rule id_take_nth_drop)
  then have "concat (map (map Byte) bs) =
             concat (map (map Byte) (take i bs @ bs ! i # drop (Suc i) bs))" by simp
  then show ?thesis by simp
qed

lemma length_bytes_take:
  assumes "\<forall>j<length bs. length (bs ! j) = w" and "i \<le> length bs"
  shows "length (concat (map (map Byte) (take i bs))) = i * w"
  using assms(2)
proof (induction i)
  case 0
  show ?case by simp
next
  case (Suc i)
  then have "take (Suc i) bs = take i bs @ [bs ! i]"
    by (simp add: take_Suc_conv_app_nth)
  then show ?case using Suc assms(1) by simp
qed

lemma holds_widths:
  assumes "holds w u bs" and "j < length bs"
  shows "length (bs ! j) = w"
proof -
  have "entry_cells w (data u j) = map Byte (bs ! j)"
    using assms by (simp add: holds_def)
  then have "length (entry_cells w (data u j)) = length (map Byte (bs ! j))" by simp
  then show ?thesis by simp
qed

lemma image_alias:
  assumes "0 < P"
  shows "load_ptr P (forward_image P name w u @ rest) 0 = Some Null"
proof -
  have "forward_image P name w u @ rest =
        [] @ ptr_cells P Null @ (map Byte (c_str name) @ [Byte NUL] @
          union_cells w u (nat (count u)) @
          addr_ptrs P (P + strlen name + 1) w [0..<nat (count u)] @ ptr_cells P Null @ rest)"
    by (simp add: forward_image_def forward_head_def)
  then show ?thesis
    using load_ptr_at [OF assms, of "[]" 0 Null] by simp
qed

lemma image_name:
  "load_cstring (forward_image P name w u @ rest) P = Some (c_str name)"
proof -
  have "forward_image P name w u @ rest =
        ptr_cells P Null @ map Byte (c_str name) @ [Byte NUL] @
          (union_cells w u (nat (count u)) @
           addr_ptrs P (P + strlen name + 1) w [0..<nat (count u)] @ ptr_cells P Null @ rest)"
    by (simp add: forward_image_def forward_head_def)
  then show ?thesis
    using load_cstring_at [of "ptr_cells P Null" P "c_str name"] c_str_no_NUL by simp
qed

lemma image_addr_ptr:
  assumes "0 < P" and "i < nat (count u)"
  shows "load_ptr P (forward_image P name w u @ rest)
           (P + strlen name + 1 + nat (count u) * w + P * i) =
         Some (Buf (P + strlen name + 1 + w * i))"
proof -
  let ?pre = "forward_head P name @ union_cells w u (nat (count u)) @
              addr_ptrs P (P + strlen name + 1) w [0..<i]"
  have "forward_image P name w u @ rest =
        ?pre @ ptr_cells P (Buf (P + strlen name + 1 + w * i)) @
          (addr_ptrs P (P + strlen name + 1) w [Suc i..<nat (count u)] @ ptr_cells P Null @ rest)"
    by (simp add: forward_image_def addr_ptrs_split [OF assms(2)])
  moreover have "length ?pre = P + strlen name + 1 + nat (count u) * w + P * i"
    by (simp add: mult.commute)
  ultimately show ?thesis
    using load_ptr_at [OF assms(1), of ?pre] by simp
qed

lemma image_addr_end:
  assumes "0 < P"
  shows "load_ptr P (forward_image P name w u @ rest)
           (P + strlen name + 1 + nat (count u) * w + P * nat (count u)) = Some Null"
proof -
  let ?pre = "forward_head P name @ union_cells w u (nat (count u)) @
              addr_ptrs P (P + strlen name + 1) w [0..<nat (count u)]"
  have "forward_image P name w u @ rest = ?pre @ ptr_cells P Null @ rest"
    by (simp add: forward_image_def)
  moreover have "length ?pre = P + strlen name + 1 + nat (count u) * w + P * nat (count u)"
    by (simp add: mult.commute)
  ultimately show ?thesis
    using load_ptr_at [OF assms(1), of ?pre] by simp
qed

lemma image_addr_bytes:
  assumes h: "holds w u bs" and i: "i < length bs"
  shows "load_bytes (forward_image P name w u @ rest) (P + strlen name + 1 + w * i) w =
         Some (bs ! i)"
proof -
  let ?pre = "forward_head P name @ concat (map (map Byte) (take i bs))"
  have wd: "\<forall>j<length bs. length (bs ! j) = w"
    using holds_widths [OF h] by simp
  have "forward_image P name w u @ rest =
        ?pre @ map Byte (bs ! i) @
          (concat (map (map Byte) (drop (Suc i) bs)) @
           addr_ptrs P (P + strlen name + 1) w [0..<nat (count u)] @ ptr_cells P Null @ rest)"
    by (simp add: forward_image_def holds_union_cells [OF h] bytes_split [OF i])
  moreover have "length ?pre = P + strlen name + 1 + w * i"
    using length_bytes_take [OF wd, of i] i by (simp add: mult.commute)
  ultimately show ?thesis
    using load_bytes_at [of ?pre _ "bs ! i"] wd i by simp
qed


section \<open>The forward lookup, case by case\<close>


lemma forward_after_query:
  assumes sup: "\<not> family_unsupported b af"
    and coarse: "sizeof_ptr b + strlen name + 1 \<le> length (buffer s)"
    and fd: "0 \<le> open_fd env"
    and q: "mdns_query_name (answers env) (af = AF_INET) (af = AF_INET6) empty_userdata = Done u"
  shows "gethostbyname2_r b env name af s =
     (if query_r env < 0 then
        Done (NSS_STATUS_UNAVAIL,
          s\<lparr>calls := calls s @ [Open_socket (open_fd env),
                  Query_name (open_fd env) (c_str name) (af = AF_INET) (af = AF_INET6),
                  Close (open_fd env)],
             errnop := ETIMEDOUT, h_errnop := HOST_NOT_FOUND\<rparr>)
      else
        gethostbyname2_record b name af
          (if af = AF_INET then sizeof_ipv4_address_t else sizeof_ipv6_address_t)
          (open_fd env) u
          (s\<lparr>calls := calls s @ [Open_socket (open_fd env),
                  Query_name (open_fd env) (c_str name) (af = AF_INET) (af = AF_INET6)]\<rparr>))"
  using assms by (simp add: gethostbyname2_r_def Let_def finish_def not_less)

lemma forward_reaches_query:
  assumes "gethostbyname2_r b env name af s = Done (st, s')"
    and "st = NSS_STATUS_SUCCESS \<or> calls s' \<noteq> calls s \<and> 0 \<le> open_fd env"
  shows "\<not> family_unsupported b af \<and>
         sizeof_ptr b + strlen name + 1 \<le> length (buffer s) \<and> 0 \<le> open_fd env \<and>
         (\<exists>u. mdns_query_name (answers env) (af = AF_INET) (af = AF_INET6) empty_userdata = Done u)"
  using assms
  by (auto simp: gethostbyname2_r_def Let_def finish_def rbind_Done_iff split: if_splits)


lemma forward_char:
  assumes sup: "\<not> family_unsupported b af"
    and coarse: "sizeof_ptr b + strlen name + 1 \<le> length (buffer s)"
    and fd: "0 \<le> open_fd env"
    and q: "mdns_query_name (answers env) (af = AF_INET) (af = AF_INET6) empty_userdata = Done u"
    and r: "0 \<le> query_r env"
  shows "gethostbyname2_r b env name af s =
     (if length (buffer s) <
           forward_required (sizeof_ptr b) name
             (if af = AF_INET then sizeof_ipv4_address_t else sizeof_ipv6_address_t)
             (nat (count u))
      then
        Done (NSS_STATUS_TRYAGAIN,
          s\<lparr>buffer := forward_head (sizeof_ptr b) name @
                          drop (sizeof_ptr b + strlen name + 1) (buffer s),
             result := (result s)\<lparr>h_aliases := Buf 0, h_name := Buf (sizeof_ptr b),
                         h_addrtype := af,
                         h_length := int (if af = AF_INET then sizeof_ipv4_address_t
                                          else sizeof_ipv6_address_t)\<rparr>,
             errnop := ERANGE, h_errnop := NO_RECOVERY,
             calls := calls s @ [Open_socket (open_fd env),
                  Query_name (open_fd env) (c_str name) (af = AF_INET) (af = AF_INET6),
                  Close (open_fd env)]\<rparr>)
      else
        Done (NSS_STATUS_SUCCESS,
          s\<lparr>buffer :=
               forward_image (sizeof_ptr b) name
                 (if af = AF_INET then sizeof_ipv4_address_t else sizeof_ipv6_address_t) u @
               drop (forward_required (sizeof_ptr b) name
                       (if af = AF_INET then sizeof_ipv4_address_t else sizeof_ipv6_address_t)
                       (nat (count u))) (buffer s),
             result := (result s)\<lparr>h_aliases := Buf 0, h_name := Buf (sizeof_ptr b),
                         h_addrtype := af,
                         h_length := int (if af = AF_INET then sizeof_ipv4_address_t
                                          else sizeof_ipv6_address_t),
                         h_addr_list :=
                           Buf (sizeof_ptr b + strlen name + 1 +
                                nat (count u) *
                                (if af = AF_INET then sizeof_ipv4_address_t
                                 else sizeof_ipv6_address_t))\<rparr>,
             calls := calls s @ [Open_socket (open_fd env),
                  Query_name (open_fd env) (c_str name) (af = AF_INET) (af = AF_INET6),
                  Close (open_fd env)]\<rparr>))"
proof -
  let ?w = "if af = AF_INET then sizeof_ipv4_address_t else sizeof_ipv6_address_t"
  let ?s2 = "s\<lparr>calls := calls s @ [Open_socket (open_fd env),
                  Query_name (open_fd env) (c_str name) (af = AF_INET) (af = AF_INET6)]\<rparr>"
  have h: "holds ?w u (accumulated af (answers env))"
    using query_from_empty [OF supported_family [OF sup] q] .
  then have c: "0 \<le> count u" and d: "data_len u = int ?w * count u"
    by (simp_all add: holds_def)
  have co: "sizeof_ptr b + strlen name + 1 \<le> length (buffer ?s2)"
    using coarse by simp
  have "gethostbyname2_r b env name af s =
        gethostbyname2_record b name af ?w (open_fd env) u ?s2"
    using forward_after_query [OF sup coarse fd q] r by simp
  also note record_char [OF c d co, of af "open_fd env"]
  finally show ?thesis
    using fd by (simp add: finish_def)
qed


section \<open>The capacity checks of the forward lookup\<close>


text \<open>
  C1.  Forward lookup, supported family, a channel that opens, a query that delivers its
  answers and does not fail, leaving \<open>N\<close> addresses of width \<open>W\<close> in the accumulator
  (\<open>0 \<le> N \<le> 16\<close>), and a name of length \<open>L\<close>.  With
  \<open>required = sizeof(char*) + L + 1 + N * W + sizeof(char*) * (N + 1)\<close>: a buffer of exactly
  \<open>required\<close> bytes passes both capacity checks and the call returns
  \<^verbatim>\<open>NSS_STATUS_SUCCESS\<close>; a buffer of \<open>required - 1\<close> bytes makes it return
  \<^verbatim>\<open>NSS_STATUS_TRYAGAIN\<close> with \<^verbatim>\<open>*errnop = ERANGE\<close>.
\<close>

theorem capacity_check_exact:
  assumes sup: "\<not> family_unsupported b af"
    and fd: "0 \<le> open_fd env"
    and r: "0 \<le> query_r env"
    and q: "mdns_query_name (answers env) (af = AF_INET) (af = AF_INET6) empty_userdata = Done u"
  shows "0 \<le> count u \<and> count u \<le> MAX_ENTRIES \<and>
     (let P = sizeof_ptr b;
          L = strlen name;
          W = (if af = AF_INET then sizeof_ipv4_address_t else sizeof_ipv6_address_t);
          N = nat (count u);
          required = P + L + 1 + N * W + P * (N + 1)
      in
        (length (buffer s) = required \<longrightarrow>
           (\<exists>s'. gethostbyname2_r b env name af s = Done (NSS_STATUS_SUCCESS, s'))) \<and>
        (length (buffer s) = required - 1 \<longrightarrow>
           (\<exists>s'. gethostbyname2_r b env name af s = Done (NSS_STATUS_TRYAGAIN, s') \<and>
                 errnop s' = ERANGE)))"
proof -
  let ?P = "sizeof_ptr b" and ?L = "strlen name"
  let ?W = "if af = AF_INET then sizeof_ipv4_address_t else sizeof_ipv6_address_t"
  let ?N = "nat (count u)"
  let ?req = "?P + ?L + 1 + ?N * ?W + ?P * (?N + 1)"
  have h: "holds ?W u (accumulated af (answers env))"
    using query_from_empty [OF supported_family [OF sup] q] .
  then have cnt: "0 \<le> count u \<and> count u \<le> MAX_ENTRIES"
    using holds_count by blast
  have req: "forward_required ?P name ?W ?N = ?req"
    by (simp add: forward_required_def)
  have fits: "\<exists>s'. gethostbyname2_r b env name af s = Done (NSS_STATUS_SUCCESS, s')"
    if "length (buffer s) = ?req"
  proof -
    from that have "?P + ?L + 1 \<le> length (buffer s)" by simp
    from forward_char [OF sup this fd q r] that show ?thesis
      unfolding req by simp
  qed
  have short: "\<exists>s'. gethostbyname2_r b env name af s = Done (NSS_STATUS_TRYAGAIN, s') \<and>
                    errnop s' = ERANGE"
    if len: "length (buffer s) = ?req - 1"
  proof (cases "?P + ?L + 1 \<le> length (buffer s)")
    case True
    have "length (buffer s) < ?req" using len by simp
    with forward_char [OF sup True fd q r] show ?thesis
      unfolding req by simp
  next
    case False
    then show ?thesis
      using sup by (simp add: gethostbyname2_r_def Let_def finish_def)
  qed
  show ?thesis
    using cnt fits short by (simp add: Let_def)
qed

text \<open>
  The lookup of \<open>foo.local\<close> with two IPv4 answers needs \<open>8 + 9 + 1 + 2 * 4 + 8 * 3 = 50\<close>
  bytes: it succeeds with 50 and asks for a larger buffer with 49.
\<close>

theorem capacity_check_exact_witness:
  "(\<exists>s'. gethostbyname2_r example_build example_collaborator ''foo.local'' AF_INET
            (example_call 50) = Done (NSS_STATUS_SUCCESS, s')) \<and>
   (\<exists>s'. gethostbyname2_r example_build example_collaborator ''foo.local'' AF_INET
            (example_call 49) = Done (NSS_STATUS_TRYAGAIN, s') \<and> errnop s' = ERANGE)"
proof -
  have sup: "\<not> family_unsupported example_build AF_INET"
    by (simp add: family_unsupported_def example_build_def)
  have fd: "0 \<le> open_fd example_collaborator" and r: "0 \<le> query_r example_collaborator"
    by (simp_all add: example_collaborator_def)
  obtain u where
    q: "mdns_query_name (answers example_collaborator) (AF_INET = AF_INET) (AF_INET = AF_INET6)
          empty_userdata = Done u"
    and c: "count u = 2"
    by (simp add: example_collaborator_def ipv4_callback_def empty_userdata_def
        MAX_ENTRIES_def AF_INET_def AF_INET6_def)
  have l: "strlen ''foo.local'' = 9"
    by (simp add: strlen_def c_str_def NUL_def)
  show ?thesis
    using capacity_check_exact [OF sup fd r q, of "''foo.local''" "example_call 50"]
      capacity_check_exact [OF sup fd r q, of "''foo.local''" "example_call 49"]
    by (simp add: Let_def c l example_build_def example_call_def sizeof_ipv4_address_t_def)
qed


section \<open>The record of a successful forward lookup\<close>


lemma forward_success:
  assumes run: "gethostbyname2_r b env name af s = Done (NSS_STATUS_SUCCESS, s')"
  obtains u where
    "holds (if af = AF_INET then sizeof_ipv4_address_t else sizeof_ipv6_address_t) u
       (accumulated af (answers env))"
    "forward_required (sizeof_ptr b) name
       (if af = AF_INET then sizeof_ipv4_address_t else sizeof_ipv6_address_t) (nat (count u))
     \<le> length (buffer s)"
    "buffer s' =
       forward_image (sizeof_ptr b) name
         (if af = AF_INET then sizeof_ipv4_address_t else sizeof_ipv6_address_t) u @
       drop (forward_required (sizeof_ptr b) name
               (if af = AF_INET then sizeof_ipv4_address_t else sizeof_ipv6_address_t)
               (nat (count u))) (buffer s)"
    "result s' =
       (result s)\<lparr>h_aliases := Buf 0, h_name := Buf (sizeof_ptr b), h_addrtype := af,
         h_length := int (if af = AF_INET then sizeof_ipv4_address_t else sizeof_ipv6_address_t),
         h_addr_list :=
           Buf (sizeof_ptr b + strlen name + 1 +
                nat (count u) *
                (if af = AF_INET then sizeof_ipv4_address_t else sizeof_ipv6_address_t))\<rparr>"
proof -
  from forward_reaches_query [OF run] obtain u where
    sup: "\<not> family_unsupported b af"
    and coarse: "sizeof_ptr b + strlen name + 1 \<le> length (buffer s)"
    and fd: "0 \<le> open_fd env"
    and q: "mdns_query_name (answers env) (af = AF_INET) (af = AF_INET6) empty_userdata = Done u"
    by auto
  have r: "0 \<le> query_r env"
    using run forward_after_query [OF sup coarse fd q] by (auto split: if_splits)
  have h: "holds (if af = AF_INET then sizeof_ipv4_address_t else sizeof_ipv6_address_t) u
             (accumulated af (answers env))"
    using query_from_empty [OF supported_family [OF sup] q] .
  from run forward_char [OF sup coarse fd q r] h that show thesis
    by (auto split: if_splits simp: not_less)
qed

text \<open>
  C2.  After a forward lookup has returned \<^verbatim>\<open>NSS_STATUS_SUCCESS\<close> (on a machine whose
  pointers take at least one byte): \<^verbatim>\<open>h_name\<close> points at a NUL-terminated copy of the
  queried name; \<^verbatim>\<open>h_aliases\<close> points at a null pointer; \<^verbatim>\<open>h_addrtype\<close> and
  \<^verbatim>\<open>h_length\<close> are the requested family and its address width; for every \<open>i\<close> below
  the number of accumulated addresses \<^verbatim>\<open>h_addr_list[i]\<close> points into the buffer at bytes
  equal to the \<open>i\<close>-th accumulated address, in the order of arrival; and
  \<^verbatim>\<open>h_addr_list[count]\<close> is null.
\<close>

theorem forward_record_roundtrip:
  assumes run: "gethostbyname2_r b env name af s = Done (NSS_STATUS_SUCCESS, s')"
    and P: "0 < sizeof_ptr b"
  shows "\<exists>hn ha al.
     h_name (result s') = Buf hn \<and>
     load_cstring (buffer s') hn = Some (c_str name) \<and>
     h_aliases (result s') = Buf ha \<and>
     load_ptr (sizeof_ptr b) (buffer s') ha = Some Null \<and>
     h_addrtype (result s') = af \<and>
     h_length (result s') =
       int (if af = AF_INET then sizeof_ipv4_address_t else sizeof_ipv6_address_t) \<and>
     h_addr_list (result s') = Buf al \<and>
     (\<forall>i<length (accumulated af (answers env)).
        \<exists>ai. load_ptr (sizeof_ptr b) (buffer s') (al + sizeof_ptr b * i) = Some (Buf ai) \<and>
             load_bytes (buffer s') ai
               (if af = AF_INET then sizeof_ipv4_address_t else sizeof_ipv6_address_t) =
             Some (accumulated af (answers env) ! i)) \<and>
     load_ptr (sizeof_ptr b) (buffer s')
       (al + sizeof_ptr b * length (accumulated af (answers env))) = Some Null"
proof -
  let ?P = "sizeof_ptr b"
  let ?W = "if af = AF_INET then sizeof_ipv4_address_t else sizeof_ipv6_address_t"
  let ?bs = "accumulated af (answers env)"
  from forward_success [OF run] obtain u where
    h: "holds ?W u ?bs"
    and buf: "buffer s' = forward_image ?P name ?W u @
                drop (forward_required ?P name ?W (nat (count u))) (buffer s)"
    and res: "result s' =
       (result s)\<lparr>h_aliases := Buf 0, h_name := Buf ?P, h_addrtype := af,
         h_length := int ?W,
         h_addr_list := Buf (?P + strlen name + 1 + nat (count u) * ?W)\<rparr>"
    by blast
  from h have n: "nat (count u) = length ?bs" using holds_count by blast
  let ?al = "?P + strlen name + 1 + nat (count u) * ?W"
  have ptrs: "\<forall>i<length ?bs.
        \<exists>ai. load_ptr ?P (buffer s') (?al + ?P * i) = Some (Buf ai) \<and>
             load_bytes (buffer s') ai ?W = Some (?bs ! i)"
  proof (intro allI impI)
    fix i assume i: "i < length ?bs"
    then have "i < nat (count u)" using n by simp
    from image_addr_ptr [OF P this] image_addr_bytes [OF h i]
    show "\<exists>ai. load_ptr ?P (buffer s') (?al + ?P * i) = Some (Buf ai) \<and>
             load_bytes (buffer s') ai ?W = Some (?bs ! i)"
      unfolding buf by blast
  qed
  have fin: "load_ptr ?P (buffer s') (?al + ?P * length ?bs) = Some Null"
    using image_addr_end [OF P, of name ?W u] unfolding buf n by simp
  have "h_name (result s') = Buf ?P \<and>
     load_cstring (buffer s') ?P = Some (c_str name) \<and>
     h_aliases (result s') = Buf 0 \<and>
     load_ptr ?P (buffer s') 0 = Some Null \<and>
     h_addrtype (result s') = af \<and>
     h_length (result s') = int ?W \<and>
     h_addr_list (result s') = Buf ?al"
    unfolding buf res using image_alias [OF P] image_name by simp
  with ptrs fin show ?thesis by blast
qed


text \<open>
  The lookup of \<open>foo.local\<close> with a buffer of 50 bytes: the name at offset 8, the addresses
  10.0.0.5 and 10.0.0.6 at offsets 18 and 22, the pointer array at offset 26.
\<close>

theorem forward_record_roundtrip_witness:
  "gethostbyname2_r example_build example_collaborator ''foo.local'' AF_INET (example_call 50) =
     Done (NSS_STATUS_SUCCESS, example_success) \<and>
   h_name (result example_success) = Buf 8 \<and>
   load_cstring (buffer example_success) 8 = Some ''foo.local'' \<and>
   h_aliases (result example_success) = Buf 0 \<and>
   load_ptr 8 (buffer example_success) 0 = Some Null \<and>
   h_addrtype (result example_success) = AF_INET \<and>
   h_length (result example_success) = 4 \<and>
   h_addr_list (result example_success) = Buf 26 \<and>
   load_ptr 8 (buffer example_success) 26 = Some (Buf 18) \<and>
   load_bytes (buffer example_success) 18 4 = Some [CHR 0x0A, CHR 0x00, CHR 0x00, CHR 0x05] \<and>
   load_ptr 8 (buffer example_success) 34 = Some (Buf 22) \<and>
   load_bytes (buffer example_success) 22 4 = Some [CHR 0x0A, CHR 0x00, CHR 0x00, CHR 0x06] \<and>
   load_ptr 8 (buffer example_success) 42 = Some Null"
proof -
  have run: "gethostbyname2_r example_build example_collaborator ''foo.local'' AF_INET
               (example_call 50) = Done (NSS_STATUS_SUCCESS, example_success)"
    by code_simp
  have P: "0 < sizeof_ptr example_build" "sizeof_ptr example_build = 8"
    by (simp_all add: example_build_def)
  have acc: "accumulated AF_INET (answers example_collaborator) =
               [[CHR 0x0A, CHR 0x00, CHR 0x00, CHR 0x05], [CHR 0x0A, CHR 0x00, CHR 0x00, CHR 0x06]]"
    by code_simp
  have str: "c_str ''foo.local'' = ''foo.local''"
    by code_simp
  have res: "h_name (result example_success) = Buf 8" "h_aliases (result example_success) = Buf 0"
    "h_addr_list (result example_success) = Buf 26"
    by (simp_all add: example_success_def)
  have p0: "load_ptr 8 (buffer example_success) 26 = Some (Buf 18)"
    and p1: "load_ptr 8 (buffer example_success) 34 = Some (Buf 22)"
    by code_simp+
  from forward_record_roundtrip [OF run P(1)] obtain hn ha al where
    f: "h_name (result example_success) = Buf hn"
       "load_cstring (buffer example_success) hn = Some (c_str ''foo.local'')"
       "h_aliases (result example_success) = Buf ha"
       "load_ptr 8 (buffer example_success) ha = Some Null"
       "h_addrtype (result example_success) = AF_INET"
       "h_length (result example_success) = int sizeof_ipv4_address_t"
       "h_addr_list (result example_success) = Buf al"
       "\<forall>i<2. \<exists>ai. load_ptr 8 (buffer example_success) (al + 8 * i) = Some (Buf ai) \<and>
              load_bytes (buffer example_success) ai sizeof_ipv4_address_t =
              Some ([[CHR 0x0A, CHR 0x00, CHR 0x00, CHR 0x05],
                     [CHR 0x0A, CHR 0x00, CHR 0x00, CHR 0x06]] ! i)"
       "load_ptr 8 (buffer example_success) (al + 8 * 2) = Some Null"
    unfolding acc P(2) by auto
  from f(1,3,7) res have v: "hn = 8" "ha = 0" "al = 26" by simp_all
  from f(8) have "\<exists>ai. load_ptr 8 (buffer example_success) (al + 8 * 0) = Some (Buf ai) \<and>
              load_bytes (buffer example_success) ai sizeof_ipv4_address_t =
              Some [CHR 0x0A, CHR 0x00, CHR 0x00, CHR 0x05]"
    by (metis nth_Cons_0 zero_less_numeral)
  then have b0: "load_bytes (buffer example_success) 18 4 = Some [CHR 0x0A, CHR 0x00, CHR 0x00, CHR 0x05]"
    using p0 by (auto simp: v sizeof_ipv4_address_t_def)
  from f(8) have "\<exists>ai. load_ptr 8 (buffer example_success) (al + 8 * 1) = Some (Buf ai) \<and>
              load_bytes (buffer example_success) ai sizeof_ipv4_address_t =
              Some [CHR 0x0A, CHR 0x00, CHR 0x00, CHR 0x06]"
    by (metis nth_Cons_0 nth_Cons_Suc One_nat_def one_less_numeral_iff semiring_norm(76))
  then have b1: "load_bytes (buffer example_success) 22 4 = Some [CHR 0x0A, CHR 0x00, CHR 0x00, CHR 0x06]"
    using p1 by (auto simp: v sizeof_ipv4_address_t_def)
  show ?thesis
    using run res f(2,4,5,6,9) p0 p1 b0 b1
    by (simp add: v str sizeof_ipv4_address_t_def)
qed


section \<open>The reverse lookup, case by case\<close>


lemma name_callback_keep:
  assumes "0 < count u"
  shows "name_callback (Some n) ok u = Done u \<or>
         (\<exists>u'. name_callback (Some n) ok u = Done u' \<and> count u' = count u + 1 \<and>
               count u' \<le> MAX_ENTRIES \<and> data u' 0 = data u 0)"
  using assms by (auto simp: name_callback_def)

lemma mdns_query_addr_keep:
  "0 < count u \<Longrightarrow>
     (case mdns_query_addr ns u of
        Done u' \<Rightarrow> 0 < count u' \<and> data u' 0 = data u 0
      | Abort \<Rightarrow> True
      | UB \<Rightarrow> False)"
proof (induction ns arbitrary: u)
  case Nil
  then show ?case by (simp add: mdns_query_addr_def)
next
  case (Cons x ns)
  obtain n ok where x: "x = (n, ok)" by (cases x)
  show ?case
  proof (cases n)
    case None
    then show ?thesis by (simp add: mdns_query_addr_def x name_callback_def)
  next
    case (Some s)
    from name_callback_keep [OF Cons.prems, of s ok]
    show ?thesis
    proof
      assume "name_callback (Some s) ok u = Done u"
      then show ?thesis
        using Cons.IH [OF Cons.prems] by (simp add: mdns_query_addr_def x Some)
    next
      assume "\<exists>u'. name_callback (Some s) ok u = Done u' \<and> count u' = count u + 1 \<and>
               count u' \<le> MAX_ENTRIES \<and> data u' 0 = data u 0"
      then obtain u1 where u1: "name_callback (Some s) ok u = Done u1" "count u1 = count u + 1"
        "data u1 0 = data u 0" by blast
      then have "0 < count u1" using Cons.prems by simp
      from Cons.IH [OF this] show ?thesis
        using u1 by (simp add: mdns_query_addr_def x Some split: res.splits)
    qed
  qed
qed

lemma mdns_query_addr_empty:
  "(case mdns_query_addr ns empty_userdata of
      Done u \<Rightarrow>
        (ns = [] \<and> u = empty_userdata) \<or>
        (\<exists>n ok rest. ns = (Some n, ok) # rest \<and> 0 < count u \<and>
            data u 0 = Some (Name (if ok then Some (c_str n) else None)))
    | Abort \<Rightarrow> ns \<noteq> []
    | UB \<Rightarrow> False)"
proof (cases ns)
  case Nil
  then show ?thesis by (simp add: mdns_query_addr_def)
next
  case (Cons x rest)
  obtain n ok where x: "x = (n, ok)" by (cases x)
  show ?thesis
  proof (cases n)
    case None
    then show ?thesis by (simp add: mdns_query_addr_def x Cons name_callback_def)
  next
    case (Some s)
    let ?u1 = "empty_userdata\<lparr>count := 1,
                 data := (data empty_userdata)(0 \<mapsto> Name (if ok then Some (c_str s) else None)),
                 data_len := int32 (data_len empty_userdata + (int (strlen s) + 1))\<rparr>"
    have cb: "name_callback (Some s) ok empty_userdata = Done ?u1"
      by (simp add: name_callback_def empty_userdata_def MAX_ENTRIES_def)
    have q: "mdns_query_addr ns empty_userdata = mdns_query_addr rest ?u1"
      by (simp add: mdns_query_addr_def x Cons Some cb)
    have d0: "data ?u1 0 = Some (Name (if ok then Some (c_str s) else None))" by simp
    have "0 < count ?u1" by simp
    note keep = mdns_query_addr_keep [OF this, of rest]
    show ?thesis
    proof (cases "mdns_query_addr rest ?u1")
      case (Done u')
      with keep have "0 < count u'" "data u' 0 = data ?u1 0" by simp_all
      with d0 have "ns = (Some s, ok) # rest \<and> 0 < count u' \<and>
            data u' 0 = Some (Name (if ok then Some (c_str s) else None))"
        using Cons x Some by simp
      then show ?thesis unfolding q Done by (simp only: res.case) blast
    next
      case Abort
      then show ?thesis unfolding q using Cons by simp
    next
      case UB
      with keep show ?thesis by simp
    qed
  qed
qed

lemma first_name_cases:
  assumes "mdns_query_addr ns empty_userdata = Done u"
  shows "(ns = [] \<and> first_name u = Abort) \<or>
         (\<exists>n rest. ns = (Some n, False) # rest \<and> first_name u = Abort) \<or>
         (\<exists>n rest. ns = (Some n, True) # rest \<and> first_name u = Done (c_str n))"
  using mdns_query_addr_empty [of ns] assms
  by (auto simp: first_name_def empty_userdata_def)


lemma length_reverse_image:
  "w \<le> length addr \<Longrightarrow> length (reverse_image P name0 w addr) = reverse_required P name0 w"
  by (simp add: reverse_image_def reverse_required_def)

lemma reverse_record_char:
  assumes fn: "first_name u = Done name0" and la: "w \<le> length addr"
    and coarse: "sizeof_ptr b \<le> length (buffer s)"
  shows "gethostbyaddr_record b addr af w fd u s =
     (if length (buffer s) < reverse_required (sizeof_ptr b) name0 w
      then finish fd NSS_STATUS_TRYAGAIN
             (s\<lparr>buffer := ptr_cells (sizeof_ptr b) Null @ drop (sizeof_ptr b) (buffer s),
                 result := (result s)\<lparr>h_aliases := Buf 0\<rparr>,
                 errnop := ERANGE, h_errnop := NO_RECOVERY\<rparr>)
      else finish fd NSS_STATUS_SUCCESS
             (s\<lparr>buffer := reverse_image (sizeof_ptr b) name0 w addr @
                             drop (reverse_required (sizeof_ptr b) name0 w) (buffer s),
                 result := (result s)\<lparr>h_aliases := Buf 0, h_name := Buf (sizeof_ptr b),
                             h_addrtype := af, h_length := int w,
                             h_addr_list := Buf (sizeof_ptr b + strlen name0 + 1 + w)\<rparr>\<rparr>))"
proof -
  let ?P = "sizeof_ptr b" and ?L = "strlen name0" and ?m0 = "buffer s"
  let ?nm = "map Byte (c_str name0) @ [Byte NUL]"
  let ?i1 = "?P + (?L + 1)"
  let ?req = "reverse_required ?P name0 w"
  let ?ab = "map Byte (take w addr)"
  have i1: "?i1 = ?P + ?L + 1" by simp
  have s1: "store ?m0 0 (ptr_cells ?P Null) = Done (ptr_cells ?P Null @ drop ?P ?m0)"
    using coarse by (simp add: store_start)
  have chk: "?L + 1 + ?P + w + ?P * 2 = ?req"
    by (simp add: reverse_required_def)
  show ?thesis
  proof (cases "length ?m0 < ?req")
    case True
    have "gethostbyaddr_record b addr af w fd u s =
          finish fd NSS_STATUS_TRYAGAIN
            (s\<lparr>buffer := ptr_cells ?P Null @ drop ?P ?m0,
                result := (result s)\<lparr>h_aliases := Buf 0\<rparr>,
                errnop := ERANGE, h_errnop := NO_RECOVERY\<rparr>)"
      unfolding gethostbyaddr_record_def Let_def
      by (simp only: s1 fn rbind.simps chk True if_True)
    then show ?thesis using True by (simp only: if_True)
  next
    case False
    then have fits: "?req \<le> length ?m0" by simp
    have la': "(length addr < w) = False" using la by simp
    have s2: "store (ptr_cells ?P Null @ drop ?P ?m0) ?P ?nm =
                Done (forward_head ?P name0 @ drop ?i1 ?m0)"
      using store_prefix [of ?P "ptr_cells ?P Null" ?m0 ?nm] fits
      by (simp add: forward_head_def strlen_def reverse_required_def)
    have s3: "store (forward_head ?P name0 @ drop ?i1 ?m0) ?i1 ?ab =
                Done ((forward_head ?P name0 @ ?ab) @ drop (?i1 + w) ?m0)"
      using store_prefix [of ?i1 "forward_head ?P name0" ?m0 ?ab] fits la
      by (simp add: reverse_required_def)
    have s4: "store ((forward_head ?P name0 @ ?ab) @ drop (?i1 + w) ?m0) (?i1 + w)
                (ptr_cells ?P (Buf ?i1)) =
              Done (((forward_head ?P name0 @ ?ab) @ ptr_cells ?P (Buf ?i1)) @
                      drop (?i1 + w + ?P) ?m0)"
      using store_prefix [of "?i1 + w" "forward_head ?P name0 @ ?ab" ?m0
          "ptr_cells ?P (Buf ?i1)"] fits la
      by (simp add: reverse_required_def)
    have e: "?i1 + w + ?P + ?P = ?req"
      by (simp add: reverse_required_def)
    have img: "((forward_head ?P name0 @ ?ab) @ ptr_cells ?P (Buf ?i1)) @ ptr_cells ?P Null =
               reverse_image ?P name0 w addr"
      by (simp add: reverse_image_def)
    have "store (((forward_head ?P name0 @ ?ab) @ ptr_cells ?P (Buf ?i1)) @
                      drop (?i1 + w + ?P) ?m0) (?i1 + w + ?P) (ptr_cells ?P Null) =
          Done ((((forward_head ?P name0 @ ?ab) @ ptr_cells ?P (Buf ?i1)) @ ptr_cells ?P Null) @
                      drop (?i1 + w + ?P + ?P) ?m0)"
      using store_prefix [of "?i1 + w + ?P"
          "(forward_head ?P name0 @ ?ab) @ ptr_cells ?P (Buf ?i1)" ?m0 "ptr_cells ?P Null"]
        fits la
      by (simp add: reverse_required_def)
    then have s5: "store (((forward_head ?P name0 @ ?ab) @ ptr_cells ?P (Buf ?i1)) @
                      drop (?i1 + w + ?P) ?m0) (?i1 + w + ?P) (ptr_cells ?P Null) =
              Done (reverse_image ?P name0 w addr @ drop ?req ?m0)"
      by (simp only: e img)
    have "gethostbyaddr_record b addr af w fd u s =
          finish fd NSS_STATUS_SUCCESS
            (s\<lparr>buffer := reverse_image ?P name0 w addr @ drop ?req ?m0,
                result := (result s)\<lparr>h_aliases := Buf 0, h_name := Buf ?P,
                             h_addrtype := af, h_length := int w,
                             h_addr_list := Buf (?i1 + w)\<rparr>\<rparr>)"
      unfolding gethostbyaddr_record_def Let_def
      by (simp only: s1 fn rbind.simps chk False if_False la' s2 s3 s4 s5)
    then show ?thesis using False by (simp only: if_False i1)
  qed
qed

lemma reverse_after_query:
  assumes len: "len = int (if af = AF_INET then sizeof_ipv4_address_t else sizeof_ipv6_address_t)"
    and sup: "\<not> family_unsupported b af"
    and coarse: "sizeof_ptr b +
                 (if af = AF_INET then sizeof_ipv4_address_t else sizeof_ipv6_address_t)
                 \<le> length (buffer s)"
    and fd: "0 \<le> open_fd env"
    and q: "mdns_query_addr (names env) empty_userdata = Done u"
  shows "gethostbyaddr_r b env addr len af s =
     (if query_r env < 0 then
        Done (NSS_STATUS_UNAVAIL,
          s\<lparr>calls := calls s @ [Open_socket (open_fd env),
                  (if af = AF_INET then Query_ipv4 (open_fd env) addr
                   else Query_ipv6 (open_fd env) addr),
                  Close (open_fd env)],
             errnop := ETIMEDOUT, h_errnop := HOST_NOT_FOUND\<rparr>)
      else
        gethostbyaddr_record b addr af
          (if af = AF_INET then sizeof_ipv4_address_t else sizeof_ipv6_address_t)
          (open_fd env) u
          (s\<lparr>errnop := EINVAL, h_errnop := NO_RECOVERY,
             calls := calls s @ [Open_socket (open_fd env),
                  (if af = AF_INET then Query_ipv4 (open_fd env) addr
                   else Query_ipv6 (open_fd env) addr)]\<rparr>))"
  using assms by (simp add: gethostbyaddr_r_def Let_def finish_def not_less)

lemma reverse_reaches_query:
  assumes "gethostbyaddr_r b env addr len af s = Done (st, s')"
    and "st = NSS_STATUS_SUCCESS \<or> calls s' \<noteq> calls s \<and> 0 \<le> open_fd env"
  shows "len = int (if af = AF_INET then sizeof_ipv4_address_t else sizeof_ipv6_address_t) \<and>
         \<not> family_unsupported b af \<and>
         sizeof_ptr b + (if af = AF_INET then sizeof_ipv4_address_t else sizeof_ipv6_address_t)
           \<le> length (buffer s) \<and>
         0 \<le> open_fd env \<and>
         (\<exists>u. mdns_query_addr (names env) empty_userdata = Done u)"
  using assms
  by (auto simp: gethostbyaddr_r_def Let_def finish_def rbind_Done_iff split: if_splits)



lemma reverse_char:
  assumes len: "len = int (if af = AF_INET then sizeof_ipv4_address_t else sizeof_ipv6_address_t)"
    and sup: "\<not> family_unsupported b af"
    and coarse: "sizeof_ptr b +
                 (if af = AF_INET then sizeof_ipv4_address_t else sizeof_ipv6_address_t)
                 \<le> length (buffer s)"
    and fd: "0 \<le> open_fd env"
    and q: "mdns_query_addr (names env) empty_userdata = Done u"
    and r: "0 \<le> query_r env"
    and fn: "first_name u = Done name0"
    and la: "(if af = AF_INET then sizeof_ipv4_address_t else sizeof_ipv6_address_t) \<le> length addr"
  shows "gethostbyaddr_r b env addr len af s =
     (if length (buffer s) <
           reverse_required (sizeof_ptr b) name0
             (if af = AF_INET then sizeof_ipv4_address_t else sizeof_ipv6_address_t)
      then
        Done (NSS_STATUS_TRYAGAIN,
          s\<lparr>buffer := ptr_cells (sizeof_ptr b) Null @ drop (sizeof_ptr b) (buffer s),
             result := (result s)\<lparr>h_aliases := Buf 0\<rparr>,
             errnop := ERANGE, h_errnop := NO_RECOVERY,
             calls := calls s @ [Open_socket (open_fd env),
                  (if af = AF_INET then Query_ipv4 (open_fd env) addr
                   else Query_ipv6 (open_fd env) addr),
                  Close (open_fd env)]\<rparr>)
      else
        Done (NSS_STATUS_SUCCESS,
          s\<lparr>buffer :=
               reverse_image (sizeof_ptr b) name0
                 (if af = AF_INET then sizeof_ipv4_address_t else sizeof_ipv6_address_t) addr @
               drop (reverse_required (sizeof_ptr b) name0
                       (if af = AF_INET then sizeof_ipv4_address_t else sizeof_ipv6_address_t))
                 (buffer s),
             result := (result s)\<lparr>h_aliases := Buf 0, h_name := Buf (sizeof_ptr b),
                         h_addrtype := af,
                         h_length := int (if af = AF_INET then sizeof_ipv4_address_t
                                          else sizeof_ipv6_address_t),
                         h_addr_list :=
                           Buf (sizeof_ptr b + strlen name0 + 1 +
                                (if af = AF_INET then sizeof_ipv4_address_t
                                 else sizeof_ipv6_address_t))\<rparr>,
             errnop := EINVAL, h_errnop := NO_RECOVERY,
             calls := calls s @ [Open_socket (open_fd env),
                  (if af = AF_INET then Query_ipv4 (open_fd env) addr
                   else Query_ipv6 (open_fd env) addr),
                  Close (open_fd env)]\<rparr>))"
proof -
  let ?w = "if af = AF_INET then sizeof_ipv4_address_t else sizeof_ipv6_address_t"
  let ?s2 = "s\<lparr>errnop := EINVAL, h_errnop := NO_RECOVERY,
             calls := calls s @ [Open_socket (open_fd env),
                  (if af = AF_INET then Query_ipv4 (open_fd env) addr
                   else Query_ipv6 (open_fd env) addr)]\<rparr>"
  have co: "sizeof_ptr b \<le> length (buffer ?s2)"
    using coarse by simp
  have "gethostbyaddr_r b env addr len af s =
        gethostbyaddr_record b addr af ?w (open_fd env) u ?s2"
    using reverse_after_query [OF len sup coarse fd q] r by simp
  also note reverse_record_char [OF fn la co, of af "open_fd env"]
  finally show ?thesis
    using fd by (simp add: finish_def)
qed

lemma forward_defined: "gethostbyname2_r b env name af s \<noteq> UB"
proof (cases "\<not> family_unsupported b af \<and>
              sizeof_ptr b + strlen name + 1 \<le> length (buffer s) \<and> 0 \<le> open_fd env")
  case False
  then show ?thesis
    by (auto simp: gethostbyname2_r_def Let_def finish_def)
next
  case True
  then have sup: "\<not> family_unsupported b af"
    and coarse: "sizeof_ptr b + strlen name + 1 \<le> length (buffer s)"
    and fd: "0 \<le> open_fd env" by simp_all
  show ?thesis
  proof (cases "mdns_query_name (answers env) (af = AF_INET) (af = AF_INET6) empty_userdata")
    case (Done u)
    show ?thesis
    proof (cases "query_r env < 0")
      case True
      then show ?thesis using forward_after_query [OF sup coarse fd Done] by simp
    next
      case False
      then have "0 \<le> query_r env" by simp
      from forward_char [OF sup coarse fd Done this] show ?thesis by simp
    qed
  next
    case Abort
    then show ?thesis
      using sup coarse fd by (simp add: gethostbyname2_r_def Let_def not_less)
  next
    case UB
    then show ?thesis
      using query_from_empty_defined [OF supported_family [OF sup]] by simp
  qed
qed

lemma reverse_defined:
  assumes la: "int (length addr) = len"
  shows "gethostbyaddr_r b env addr len af s \<noteq> UB"
proof (cases "len = int (if af = AF_INET then sizeof_ipv4_address_t else sizeof_ipv6_address_t) \<and>
              \<not> family_unsupported b af \<and>
              sizeof_ptr b + (if af = AF_INET then sizeof_ipv4_address_t else sizeof_ipv6_address_t)
                \<le> length (buffer s) \<and> 0 \<le> open_fd env")
  case False
  then show ?thesis
    by (auto simp: gethostbyaddr_r_def Let_def finish_def)
next
  case True
  let ?w = "if af = AF_INET then sizeof_ipv4_address_t else sizeof_ipv6_address_t"
  from True have len: "len = int ?w"
    and sup: "\<not> family_unsupported b af"
    and coarse: "sizeof_ptr b + ?w \<le> length (buffer s)"
    and fd: "0 \<le> open_fd env" by simp_all
  have la': "?w \<le> length addr" using la len by simp
  show ?thesis
  proof (cases "mdns_query_addr (names env) empty_userdata")
    case (Done u)
    show ?thesis
    proof (cases "query_r env < 0")
      case True
      then show ?thesis using reverse_after_query [OF len sup coarse fd Done] by simp
    next
      case False
      then have r: "0 \<le> query_r env" by simp
      from first_name_cases [OF Done] show ?thesis
      proof (elim disjE exE conjE)
        fix n rest assume "first_name u = Done (c_str n)"
        from reverse_char [OF len sup coarse fd Done r this la'] show ?thesis by simp
      next
        assume "first_name u = Abort"
        then show ?thesis
          using reverse_after_query [OF len sup coarse fd Done] False coarse
          by (simp add: gethostbyaddr_record_def Let_def store_start)
      next
        fix n rest assume "first_name u = Abort"
        then show ?thesis
          using reverse_after_query [OF len sup coarse fd Done] False coarse
          by (simp add: gethostbyaddr_record_def Let_def store_start)
      qed
    qed
  next
    case Abort
    then show ?thesis
      using len sup coarse fd by (simp add: gethostbyaddr_r_def Let_def not_less)
  next
    case UB
    then show ?thesis
      using mdns_query_addr_empty [of "names env"] by simp
  qed
qed



lemma reverse_record_short:
  assumes "length addr < w"
    and "gethostbyaddr_record b addr af w fd u s = Done (st, s')"
  shows "st \<noteq> NSS_STATUS_SUCCESS"
  using assms
  by (auto simp: gethostbyaddr_record_def Let_def rbind_Done_iff finish_def split: if_splits)

lemma reverse_success:
  assumes run: "gethostbyaddr_r b env addr len af s = Done (NSS_STATUS_SUCCESS, s')"
  obtains n rest where
    "names env = (Some n, True) # rest"
    "(if af = AF_INET then sizeof_ipv4_address_t else sizeof_ipv6_address_t) \<le> length addr"
    "reverse_required (sizeof_ptr b) (c_str n)
       (if af = AF_INET then sizeof_ipv4_address_t else sizeof_ipv6_address_t)
     \<le> length (buffer s)"
    "buffer s' =
       reverse_image (sizeof_ptr b) (c_str n)
         (if af = AF_INET then sizeof_ipv4_address_t else sizeof_ipv6_address_t) addr @
       drop (reverse_required (sizeof_ptr b) (c_str n)
               (if af = AF_INET then sizeof_ipv4_address_t else sizeof_ipv6_address_t))
         (buffer s)"
    "result s' =
       (result s)\<lparr>h_aliases := Buf 0, h_name := Buf (sizeof_ptr b), h_addrtype := af,
         h_length := int (if af = AF_INET then sizeof_ipv4_address_t else sizeof_ipv6_address_t),
         h_addr_list :=
           Buf (sizeof_ptr b + strlen (c_str n) + 1 +
                (if af = AF_INET then sizeof_ipv4_address_t else sizeof_ipv6_address_t))\<rparr>"
proof -
  let ?w = "if af = AF_INET then sizeof_ipv4_address_t else sizeof_ipv6_address_t"
  from reverse_reaches_query [OF run] obtain u where
    len: "len = int ?w"
    and sup: "\<not> family_unsupported b af"
    and coarse: "sizeof_ptr b + ?w \<le> length (buffer s)"
    and fd: "0 \<le> open_fd env"
    and q: "mdns_query_addr (names env) empty_userdata = Done u"
    by auto
  note aq = reverse_after_query [OF len sup coarse fd q]
  have r: "0 \<le> query_r env"
    using run aq by (auto split: if_splits)
  then have rec: "gethostbyaddr_record b addr af ?w (open_fd env) u
          (s\<lparr>errnop := EINVAL, h_errnop := NO_RECOVERY,
             calls := calls s @ [Open_socket (open_fd env),
                  (if af = AF_INET then Query_ipv4 (open_fd env) addr
                   else Query_ipv6 (open_fd env) addr)]\<rparr>) = Done (NSS_STATUS_SUCCESS, s')"
    using run aq by simp
  have la: "?w \<le> length addr"
    using reverse_record_short [OF _ rec] by (cases "length addr < ?w") simp_all
  from rec have "first_name u \<noteq> Abort"
    by (auto simp: gethostbyaddr_record_def Let_def rbind_Done_iff)
  with first_name_cases [OF q] obtain n rest where
    ns: "names env = (Some n, True) # rest" and fn: "first_name u = Done (c_str n)"
    by auto
  from run reverse_char [OF len sup coarse fd q r fn la] ns la that show thesis
    by (auto split: if_splits simp: not_less)
qed

lemma rimage_alias:
  assumes "0 < P"
  shows "load_ptr P (reverse_image P name0 w addr @ rest) 0 = Some Null"
proof -
  have "reverse_image P name0 w addr @ rest =
        [] @ ptr_cells P Null @ (map Byte (c_str name0) @ [Byte NUL] @
          map Byte (take w addr) @ ptr_cells P (Buf (P + strlen name0 + 1)) @
          ptr_cells P Null @ rest)"
    by (simp add: reverse_image_def forward_head_def)
  then show ?thesis
    using load_ptr_at [OF assms, of "[]" 0 Null] by simp
qed

lemma rimage_name:
  "load_cstring (reverse_image P name0 w addr @ rest) P = Some (c_str name0)"
proof -
  have "reverse_image P name0 w addr @ rest =
        ptr_cells P Null @ map Byte (c_str name0) @ [Byte NUL] @
          (map Byte (take w addr) @ ptr_cells P (Buf (P + strlen name0 + 1)) @
           ptr_cells P Null @ rest)"
    by (simp add: reverse_image_def forward_head_def)
  then show ?thesis
    using load_cstring_at [of "ptr_cells P Null" P "c_str name0"] c_str_no_NUL by simp
qed

lemma rimage_addr_bytes:
  assumes "w \<le> length addr"
  shows "load_bytes (reverse_image P name0 w addr @ rest) (P + strlen name0 + 1) w =
         Some (take w addr)"
proof -
  have "reverse_image P name0 w addr @ rest =
        forward_head P name0 @ map Byte (take w addr) @
          (ptr_cells P (Buf (P + strlen name0 + 1)) @ ptr_cells P Null @ rest)"
    by (simp add: reverse_image_def)
  then show ?thesis
    using load_bytes_at [of "forward_head P name0" "P + strlen name0 + 1" "take w addr"] assms
    by simp
qed

lemma rimage_addr_ptr:
  assumes "0 < P" and "w \<le> length addr"
  shows "load_ptr P (reverse_image P name0 w addr @ rest) (P + strlen name0 + 1 + w) =
         Some (Buf (P + strlen name0 + 1))"
proof -
  let ?pre = "forward_head P name0 @ map Byte (take w addr)"
  have "reverse_image P name0 w addr @ rest =
        ?pre @ ptr_cells P (Buf (P + strlen name0 + 1)) @ (ptr_cells P Null @ rest)"
    by (simp add: reverse_image_def)
  moreover have "length ?pre = P + strlen name0 + 1 + w"
    using assms(2) by simp
  ultimately show ?thesis
    using load_ptr_at [OF assms(1), of ?pre] by simp
qed

lemma rimage_addr_end:
  assumes "0 < P" and "w \<le> length addr"
  shows "load_ptr P (reverse_image P name0 w addr @ rest) (P + strlen name0 + 1 + w + P) =
         Some Null"
proof -
  let ?pre = "forward_head P name0 @ map Byte (take w addr) @
              ptr_cells P (Buf (P + strlen name0 + 1))"
  have "reverse_image P name0 w addr @ rest = ?pre @ ptr_cells P Null @ rest"
    by (simp add: reverse_image_def)
  moreover have "length ?pre = P + strlen name0 + 1 + w + P"
    using assms(2) by simp
  ultimately show ?thesis
    using load_ptr_at [OF assms(1), of ?pre] by simp
qed

lemma ptr_array_walk:
  assumes "\<forall>i<n. \<exists>ai. load_ptr P m (off + P * i) = Some (Buf ai) \<and> ai < length m"
    and "load_ptr P m (off + P * n) = Some Null"
    and "n < fuel"
  shows "ptr_array_inside P m off fuel"
  using assms
proof (induction n arbitrary: off fuel)
  case 0
  then obtain f where "fuel = Suc f" by (cases fuel) simp_all
  with 0 show ?case by simp
next
  case (Suc n)
  then obtain f where f: "fuel = Suc f" "n < f" by (cases fuel) simp_all
  from Suc.prems(1) obtain a0 where a0: "load_ptr P m off = Some (Buf a0)" "a0 < length m"
    by (metis mult_0_right add_0_right zero_less_Suc)
  have "\<forall>i<n. \<exists>ai. load_ptr P m (off + P + P * i) = Some (Buf ai) \<and> ai < length m"
  proof (intro allI impI)
    fix i assume "i < n"
    then have "Suc i < Suc n" by simp
    with Suc.prems(1) obtain ai where
      "load_ptr P m (off + P * Suc i) = Some (Buf ai) \<and> ai < length m" by blast
    then show "\<exists>ai. load_ptr P m (off + P + P * i) = Some (Buf ai) \<and> ai < length m"
      by (auto simp: add.assoc)
  qed
  moreover have "load_ptr P m (off + P + P * n) = Some Null"
    using Suc.prems(2) by (simp add: add.assoc)
  ultimately have "ptr_array_inside P m (off + P) f"
    using Suc.IH f(2) by blast
  with a0 f show ?case by simp
qed


section \<open>The record lies inside the buffer\<close>


lemma forward_record_inside:
  assumes run: "gethostbyname2_r b env name af s = Done (NSS_STATUS_SUCCESS, s')"
    and P: "0 < sizeof_ptr b"
  shows "length (buffer s') = length (buffer s) \<and> record_inside (sizeof_ptr b) s'"
proof -
  let ?P = "sizeof_ptr b"
  let ?W = "if af = AF_INET then sizeof_ipv4_address_t else sizeof_ipv6_address_t"
  from forward_success [OF run] obtain u where
    h: "holds ?W u (accumulated af (answers env))"
    and fits: "forward_required ?P name ?W (nat (count u)) \<le> length (buffer s)"
    and buf: "buffer s' = forward_image ?P name ?W u @
                drop (forward_required ?P name ?W (nat (count u))) (buffer s)"
    and res: "result s' =
       (result s)\<lparr>h_aliases := Buf 0, h_name := Buf ?P, h_addrtype := af,
         h_length := int ?W,
         h_addr_list := Buf (?P + strlen name + 1 + nat (count u) * ?W)\<rparr>"
    by blast
  let ?N = "nat (count u)"
  let ?req = "forward_required ?P name ?W ?N"
  let ?al = "?P + strlen name + 1 + ?N * ?W"
  have len: "length (buffer s') = length (buffer s)"
    using fits by (simp add: buf length_forward_image)
  have pn: "?P \<le> ?P * (?N + 1)" by simp
  have req: "?req = ?al + ?P * (?N + 1)" by (simp add: forward_required_def)
  have al: "?al < ?req" using P pn unfolding req by linarith
  have nlt: "?N < ?req"
  proof -
    define k where "k = ?P * (?N + 1)"
    have "?N + 1 \<le> k" using mult_le_mono1 [of 1 ?P "?N + 1"] P by (simp add: k_def)
    then show ?thesis unfolding req k_def [symmetric] by linarith
  qed
  have b0: "0 < length (buffer s)" and bP: "?P < length (buffer s)"
    and bal: "?al < length (buffer s)"
    using al fits by linarith+
  have in_name: "inside (buffer s') (h_name (result s'))"
    using bP by (simp add: inside_def res len)
  have in_alias: "inside (buffer s') (h_aliases (result s'))"
    using b0 by (simp add: inside_def res len)
  have in_list: "inside (buffer s') (h_addr_list (result s'))"
    using bal by (simp add: inside_def res len)
  have "ptr_array_inside ?P (buffer s') 0 (length (buffer s'))"
  proof (rule ptr_array_walk [where n = 0])
    show "\<forall>i<0. \<exists>ai. load_ptr ?P (buffer s') (0 + ?P * i) = Some (Buf ai) \<and> ai < length (buffer s')"
      by simp
    show "load_ptr ?P (buffer s') (0 + ?P * 0) = Some Null"
      using image_alias [OF P] by (simp add: buf)
    show "0 < length (buffer s')" using al fits unfolding len by linarith
  qed
  then have arr_alias: "array_inside ?P (buffer s') (h_aliases (result s'))"
    by (simp add: array_inside_def res)
  have "ptr_array_inside ?P (buffer s') ?al (length (buffer s'))"
  proof (rule ptr_array_walk [where n = ?N])
    show "\<forall>i<?N. \<exists>ai. load_ptr ?P (buffer s') (?al + ?P * i) = Some (Buf ai) \<and>
            ai < length (buffer s')"
    proof (intro allI impI)
      fix i assume i: "i < ?N"
      then have "?W * i \<le> ?N * ?W" by (simp add: mult.commute)
      then have "?P + strlen name + 1 + ?W * i < length (buffer s')"
        using al fits len by linarith
      with image_addr_ptr [OF P i]
      show "\<exists>ai. load_ptr ?P (buffer s') (?al + ?P * i) = Some (Buf ai) \<and> ai < length (buffer s')"
        unfolding buf by blast
    qed
    show "load_ptr ?P (buffer s') (?al + ?P * ?N) = Some Null"
      using image_addr_end [OF P] by (simp add: buf)
    show "?N < length (buffer s')" using nlt fits len by simp
  qed
  then have arr_list: "array_inside ?P (buffer s') (h_addr_list (result s'))"
    by (simp add: array_inside_def res)
  show ?thesis
    using len in_name in_alias in_list arr_alias arr_list by (simp add: record_inside_def)
qed

lemma reverse_record_inside:
  assumes run: "gethostbyaddr_r b env addr len af s = Done (NSS_STATUS_SUCCESS, s')"
    and P: "0 < sizeof_ptr b"
  shows "length (buffer s') = length (buffer s) \<and> record_inside (sizeof_ptr b) s'"
proof -
  let ?P = "sizeof_ptr b"
  let ?W = "if af = AF_INET then sizeof_ipv4_address_t else sizeof_ipv6_address_t"
  from reverse_success [OF run] obtain n and rest :: "(string option \<times> bool) list" where
    la: "?W \<le> length addr"
    and fits: "reverse_required ?P (c_str n) ?W \<le> length (buffer s)"
    and buf: "buffer s' = reverse_image ?P (c_str n) ?W addr @
                drop (reverse_required ?P (c_str n) ?W) (buffer s)"
    and res: "result s' =
       (result s)\<lparr>h_aliases := Buf 0, h_name := Buf ?P, h_addrtype := af,
         h_length := int ?W,
         h_addr_list := Buf (?P + strlen (c_str n) + 1 + ?W)\<rparr>"
    by blast
  let ?req = "reverse_required ?P (c_str n) ?W"
  let ?al = "?P + strlen (c_str n) + 1 + ?W"
  have len: "length (buffer s') = length (buffer s)"
    using fits la by (simp add: buf length_reverse_image)
  have req: "?req = ?al + ?P * 2" by (simp add: reverse_required_def)
  have al: "?al < ?req" using P unfolding req by simp
  have b0: "0 < length (buffer s)" and bP: "?P < length (buffer s)"
    and bal: "?al < length (buffer s)"
    using al fits by linarith+
  have in_name: "inside (buffer s') (h_name (result s'))"
    using bP by (simp add: inside_def res len)
  have in_alias: "inside (buffer s') (h_aliases (result s'))"
    using b0 by (simp add: inside_def res len)
  have in_list: "inside (buffer s') (h_addr_list (result s'))"
    using bal by (simp add: inside_def res len)
  have "ptr_array_inside ?P (buffer s') 0 (length (buffer s'))"
  proof (rule ptr_array_walk [where n = 0])
    show "\<forall>i<0. \<exists>ai. load_ptr ?P (buffer s') (0 + ?P * i) = Some (Buf ai) \<and> ai < length (buffer s')"
      by simp
    show "load_ptr ?P (buffer s') (0 + ?P * 0) = Some Null"
      using rimage_alias [OF P] by (simp add: buf)
    show "0 < length (buffer s')" using al fits unfolding len by linarith
  qed
  then have arr_alias: "array_inside ?P (buffer s') (h_aliases (result s'))"
    by (simp add: array_inside_def res)
  have "ptr_array_inside ?P (buffer s') ?al (length (buffer s'))"
  proof (rule ptr_array_walk [where n = 1])
    have "?P + strlen (c_str n) + 1 < length (buffer s')"
      using al fits len by linarith
    with rimage_addr_ptr [OF P la]
    show "\<forall>i<1. \<exists>ai. load_ptr ?P (buffer s') (?al + ?P * i) = Some (Buf ai) \<and>
            ai < length (buffer s')"
      unfolding buf by simp
    show "load_ptr ?P (buffer s') (?al + ?P * 1) = Some Null"
      using rimage_addr_end [OF P la] by (simp add: buf)
    show "1 < length (buffer s')" using P fits len unfolding req by linarith
  qed
  then have arr_list: "array_inside ?P (buffer s') (h_addr_list (result s'))"
    by (simp add: array_inside_def res)
  show ?thesis
    using len in_name in_alias in_list arr_alias arr_list by (simp add: record_inside_def)
qed

text \<open>
  C3.  On a machine whose pointers take at least one byte, after any call (forward with a
  given family, forward with the default family, or reverse) that returns
  \<^verbatim>\<open>NSS_STATUS_SUCCESS\<close>: \<^verbatim>\<open>h_name\<close>, \<^verbatim>\<open>h_aliases\<close> and \<^verbatim>\<open>h_addr_list\<close> refer
  to offsets strictly inside \<open>[buffer, buffer + buflen)\<close>, and the alias array and the
  address array each end in a null pointer inside the buffer with only pointers into the
  buffer before it.  The buffer keeps its length, and no call writes outside it: a store
  outside the buffer is the outcome \<open>UB\<close>, which the forward lookups never have and the
  reverse lookup never has when \<open>addr\<close> refers to \<open>len\<close> bytes.
\<close>

theorem record_inside_buffer:
  assumes P: "0 < sizeof_ptr b"
  shows
    "(gethostbyname2_r b env name af s = Done (NSS_STATUS_SUCCESS, s1) \<longrightarrow>
        length (buffer s1) = length (buffer s) \<and> record_inside (sizeof_ptr b) s1) \<and>
     (gethostbyname_r b env name s = Done (NSS_STATUS_SUCCESS, s2) \<longrightarrow>
        length (buffer s2) = length (buffer s) \<and> record_inside (sizeof_ptr b) s2) \<and>
     (gethostbyaddr_r b env addr len af s = Done (NSS_STATUS_SUCCESS, s3) \<longrightarrow>
        length (buffer s3) = length (buffer s) \<and> record_inside (sizeof_ptr b) s3) \<and>
     gethostbyname2_r b env name af s \<noteq> UB \<and>
     gethostbyname_r b env name s \<noteq> UB \<and>
     (int (length addr) = len \<longrightarrow> gethostbyaddr_r b env addr len af s \<noteq> UB)"
proof (intro conjI impI)
  assume "gethostbyname2_r b env name af s = Done (NSS_STATUS_SUCCESS, s1)"
  from forward_record_inside [OF this P]
  show "length (buffer s1) = length (buffer s)" and "record_inside (sizeof_ptr b) s1"
    by simp_all
next
  assume "gethostbyname_r b env name s = Done (NSS_STATUS_SUCCESS, s2)"
  then have "gethostbyname2_r b env name (if NSS_IPV6_ONLY b then AF_INET6 else AF_INET) s =
             Done (NSS_STATUS_SUCCESS, s2)"
    by (simp only: gethostbyname_r_def)
  from forward_record_inside [OF this P]
  show "length (buffer s2) = length (buffer s)" and "record_inside (sizeof_ptr b) s2"
    by simp_all
next
  assume "gethostbyaddr_r b env addr len af s = Done (NSS_STATUS_SUCCESS, s3)"
  from reverse_record_inside [OF this P]
  show "length (buffer s3) = length (buffer s)" and "record_inside (sizeof_ptr b) s3"
    by simp_all
next
  show "gethostbyname2_r b env name af s \<noteq> UB"
    by (rule forward_defined)
  show "gethostbyname_r b env name s \<noteq> UB"
    unfolding gethostbyname_r_def by (rule forward_defined)
next
  assume "int (length addr) = len"
  then show "gethostbyaddr_r b env addr len af s \<noteq> UB"
    by (rule reverse_defined)
qed


text \<open>
  The successful lookups of \<open>foo.local\<close> (50 bytes) and of 192.168.1.1 (42 bytes) leave
  records that lie inside their buffers.
\<close>

theorem record_inside_buffer_witness:
  "gethostbyname2_r example_build example_collaborator ''foo.local'' AF_INET (example_call 50) =
     Done (NSS_STATUS_SUCCESS, example_success) \<and>
   gethostbyname_r example_build example_collaborator ''foo.local'' (example_call 50) =
     Done (NSS_STATUS_SUCCESS, example_success) \<and>
   length (buffer example_success) = 50 \<and>
   record_inside 8 example_success \<and>
   gethostbyaddr_r example_build example_collaborator example_addr 4 AF_INET (example_call 42) =
     Done (NSS_STATUS_SUCCESS, example_reverse_success) \<and>
   int (length example_addr) = 4 \<and>
   length (buffer example_reverse_success) = 42 \<and>
   record_inside 8 example_reverse_success"
proof -
  have fwd: "gethostbyname2_r example_build example_collaborator ''foo.local'' AF_INET
               (example_call 50) = Done (NSS_STATUS_SUCCESS, example_success)"
    by code_simp
  have dflt: "gethostbyname_r example_build example_collaborator ''foo.local''
               (example_call 50) = Done (NSS_STATUS_SUCCESS, example_success)"
    by code_simp
  have rev: "gethostbyaddr_r example_build example_collaborator example_addr 4 AF_INET
               (example_call 42) = Done (NSS_STATUS_SUCCESS, example_reverse_success)"
    by code_simp
  have P: "0 < sizeof_ptr example_build" "sizeof_ptr example_build = 8"
    by (simp_all add: example_build_def)
  have l: "length (buffer (example_call 50)) = 50" "length (buffer (example_call 42)) = 42"
    "int (length example_addr) = 4"
    by (simp_all add: example_call_def example_addr_def)
  show ?thesis
    using record_inside_buffer [OF P(1), of example_collaborator "''foo.local''" AF_INET
        "example_call 50" example_success example_success]
      record_inside_buffer [OF P(1), of example_collaborator _ AF_INET
        "example_call 42" _ _ example_addr 4 example_reverse_success]
      fwd dflt rev
    by (simp add: P(2) l)
qed

section \<open>What a failing call has written\<close>


lemma forward_early_untouched:
  assumes run: "gethostbyname2_r b env name af s = Done (st, s')"
    and early: "family_unsupported b af \<or> length (buffer s) < sizeof_ptr b + strlen name + 1 \<or>
                open_fd env < 0 \<or> query_r env < 0"
  shows "st \<noteq> NSS_STATUS_SUCCESS \<and> buffer s' = buffer s \<and> result s' = result s"
  using assms
  by (auto simp: gethostbyname2_r_def Let_def finish_def rbind_Done_iff split: if_splits)

lemma reverse_early_untouched:
  assumes run: "gethostbyaddr_r b env addr len af s = Done (st, s')"
    and early: "len \<noteq> int (if af = AF_INET then sizeof_ipv4_address_t else sizeof_ipv6_address_t) \<or>
                family_unsupported b af \<or>
                length (buffer s) <
                  sizeof_ptr b + (if af = AF_INET then sizeof_ipv4_address_t else sizeof_ipv6_address_t) \<or>
                open_fd env < 0 \<or> query_r env < 0"
  shows "st \<noteq> NSS_STATUS_SUCCESS \<and> buffer s' = buffer s \<and> result s' = result s"
  using assms
  by (auto simp: gethostbyaddr_r_def Let_def finish_def rbind_Done_iff split: if_splits)


lemma forward_late_head:
  assumes run: "gethostbyname2_r b env name af s = Done (st, s')"
    and st: "st \<noteq> NSS_STATUS_SUCCESS"
    and late: "\<not> (family_unsupported b af \<or>
                   length (buffer s) < sizeof_ptr b + strlen name + 1 \<or>
                   open_fd env < 0 \<or> query_r env < 0)"
  shows "st = NSS_STATUS_TRYAGAIN \<and> errnop s' = ERANGE \<and>
         buffer s' = ptr_cells (sizeof_ptr b) Null @ map Byte (c_str name) @ [Byte NUL] @
                     drop (sizeof_ptr b + strlen name + 1) (buffer s) \<and>
         result s' = (result s)\<lparr>h_aliases := Buf 0, h_name := Buf (sizeof_ptr b),
                       h_addrtype := af,
                       h_length := int (if af = AF_INET then sizeof_ipv4_address_t
                                        else sizeof_ipv6_address_t)\<rparr>"
proof -
  from late have sup: "\<not> family_unsupported b af"
    and coarse: "sizeof_ptr b + strlen name + 1 \<le> length (buffer s)"
    and fd: "0 \<le> open_fd env" and r: "0 \<le> query_r env"
    by simp_all
  obtain u where
    q: "mdns_query_name (answers env) (af = AF_INET) (af = AF_INET6) empty_userdata = Done u"
    using run sup coarse fd
    by (auto simp: gethostbyname2_r_def Let_def rbind_Done_iff not_less)
  from run st forward_char [OF sup coarse fd q r] show ?thesis
    by (auto split: if_splits simp: forward_head_def)
qed

lemma reverse_record_late:
  assumes "gethostbyaddr_record b addr af w fd u s = Done (st, s')"
    and "st \<noteq> NSS_STATUS_SUCCESS"
    and "sizeof_ptr b \<le> length (buffer s)"
  shows "st = NSS_STATUS_TRYAGAIN \<and> errnop s' = ERANGE \<and>
         buffer s' = ptr_cells (sizeof_ptr b) Null @ drop (sizeof_ptr b) (buffer s) \<and>
         result s' = (result s)\<lparr>h_aliases := Buf 0\<rparr>"
  using assms
  by (auto simp: gethostbyaddr_record_def Let_def rbind_Done_iff finish_def store_start
      split: if_splits)

lemma reverse_late_head:
  assumes run: "gethostbyaddr_r b env addr len af s = Done (st, s')"
    and st: "st \<noteq> NSS_STATUS_SUCCESS"
    and late: "\<not> (len \<noteq> int (if af = AF_INET then sizeof_ipv4_address_t else sizeof_ipv6_address_t) \<or>
                family_unsupported b af \<or>
                length (buffer s) <
                  sizeof_ptr b + (if af = AF_INET then sizeof_ipv4_address_t else sizeof_ipv6_address_t) \<or>
                open_fd env < 0 \<or> query_r env < 0)"
  shows "st = NSS_STATUS_TRYAGAIN \<and> errnop s' = ERANGE \<and>
         buffer s' = ptr_cells (sizeof_ptr b) Null @ drop (sizeof_ptr b) (buffer s) \<and>
         result s' = (result s)\<lparr>h_aliases := Buf 0\<rparr>"
proof -
  let ?w = "if af = AF_INET then sizeof_ipv4_address_t else sizeof_ipv6_address_t"
  let ?s2 = "s\<lparr>errnop := EINVAL, h_errnop := NO_RECOVERY,
             calls := calls s @ [Open_socket (open_fd env),
                  (if af = AF_INET then Query_ipv4 (open_fd env) addr
                   else Query_ipv6 (open_fd env) addr)]\<rparr>"
  from late have len: "len = int ?w" and sup: "\<not> family_unsupported b af"
    and coarse: "sizeof_ptr b + ?w \<le> length (buffer s)"
    and fd: "0 \<le> open_fd env" and r: "0 \<le> query_r env"
    by simp_all
  obtain u where q: "mdns_query_addr (names env) empty_userdata = Done u"
    using run len sup coarse fd
    by (auto simp: gethostbyaddr_r_def Let_def rbind_Done_iff not_less)
  have rec: "gethostbyaddr_record b addr af ?w (open_fd env) u ?s2 = Done (st, s')"
    using run reverse_after_query [OF len sup coarse fd q] r by simp
  have "sizeof_ptr b \<le> length (buffer ?s2)" using coarse by simp
  from reverse_record_late [OF rec st this] show ?thesis by simp
qed

text \<open>
  C7, as amended.  A call that returns another status than \<^verbatim>\<open>NSS_STATUS_SUCCESS\<close> has
  written at most the head of the record.  When it fails before or in the query
  (unsupported family or, for the reverse lookup, a wrong address length; the coarse
  capacity check; the open; the query) the buffer and \<^verbatim>\<open>*result\<close> are as the caller
  left them.  When it fails the precise capacity check it returns
  \<^verbatim>\<open>NSS_STATUS_TRYAGAIN\<close> with \<^verbatim>\<open>ERANGE\<close>, and what precedes that check in the code has
  been written: in the forward lookup the null pointer of the alias list and the name,
  with \<^verbatim>\<open>h_aliases\<close>, \<^verbatim>\<open>h_name\<close>, \<^verbatim>\<open>h_addrtype\<close> and \<^verbatim>\<open>h_length\<close> set; in the
  reverse lookup the null pointer of the alias list, with \<^verbatim>\<open>h_aliases\<close> set.  The rest
  of the buffer and \<^verbatim>\<open>h_addr_list\<close> are untouched in every case.
\<close>

theorem failure_writes_at_most_the_head:
  "(gethostbyname2_r b env name af s = Done (st, s') \<and> st \<noteq> NSS_STATUS_SUCCESS \<longrightarrow>
      (if family_unsupported b af \<or> length (buffer s) < sizeof_ptr b + strlen name + 1 \<or>
          open_fd env < 0 \<or> query_r env < 0
       then buffer s' = buffer s \<and> result s' = result s
       else st = NSS_STATUS_TRYAGAIN \<and> errnop s' = ERANGE \<and>
            buffer s' = ptr_cells (sizeof_ptr b) Null @ map Byte (c_str name) @ [Byte NUL] @
                        drop (sizeof_ptr b + strlen name + 1) (buffer s) \<and>
            result s' = (result s)\<lparr>h_aliases := Buf 0, h_name := Buf (sizeof_ptr b),
                          h_addrtype := af,
                          h_length := int (if af = AF_INET then sizeof_ipv4_address_t
                                           else sizeof_ipv6_address_t)\<rparr>)) \<and>
   (gethostbyaddr_r b env addr len af s = Done (st2, s2) \<and> st2 \<noteq> NSS_STATUS_SUCCESS \<longrightarrow>
      (if len \<noteq> int (if af = AF_INET then sizeof_ipv4_address_t else sizeof_ipv6_address_t) \<or>
          family_unsupported b af \<or>
          length (buffer s) <
            sizeof_ptr b + (if af = AF_INET then sizeof_ipv4_address_t else sizeof_ipv6_address_t) \<or>
          open_fd env < 0 \<or> query_r env < 0
       then buffer s2 = buffer s \<and> result s2 = result s
       else st2 = NSS_STATUS_TRYAGAIN \<and> errnop s2 = ERANGE \<and>
            buffer s2 = ptr_cells (sizeof_ptr b) Null @ drop (sizeof_ptr b) (buffer s) \<and>
            result s2 = (result s)\<lparr>h_aliases := Buf 0\<rparr>))"
proof (intro conjI impI)
  assume a: "gethostbyname2_r b env name af s = Done (st, s') \<and> st \<noteq> NSS_STATUS_SUCCESS"
  show "if family_unsupported b af \<or> length (buffer s) < sizeof_ptr b + strlen name + 1 \<or>
          open_fd env < 0 \<or> query_r env < 0
       then buffer s' = buffer s \<and> result s' = result s
       else st = NSS_STATUS_TRYAGAIN \<and> errnop s' = ERANGE \<and>
            buffer s' = ptr_cells (sizeof_ptr b) Null @ map Byte (c_str name) @ [Byte NUL] @
                        drop (sizeof_ptr b + strlen name + 1) (buffer s) \<and>
            result s' = (result s)\<lparr>h_aliases := Buf 0, h_name := Buf (sizeof_ptr b),
                          h_addrtype := af,
                          h_length := int (if af = AF_INET then sizeof_ipv4_address_t
                                           else sizeof_ipv6_address_t)\<rparr>"
  proof (cases "family_unsupported b af \<or> length (buffer s) < sizeof_ptr b + strlen name + 1 \<or>
          open_fd env < 0 \<or> query_r env < 0")
    case True
    with forward_early_untouched [OF conjunct1 [OF a] True] show ?thesis
      by (simp only: if_True; simp)
  next
    case False
    with forward_late_head [OF conjunct1 [OF a] conjunct2 [OF a] False] show ?thesis
      by (simp only: if_False; simp)
  qed
next
  assume a: "gethostbyaddr_r b env addr len af s = Done (st2, s2) \<and> st2 \<noteq> NSS_STATUS_SUCCESS"
  show "if len \<noteq> int (if af = AF_INET then sizeof_ipv4_address_t else sizeof_ipv6_address_t) \<or>
          family_unsupported b af \<or>
          length (buffer s) <
            sizeof_ptr b + (if af = AF_INET then sizeof_ipv4_address_t else sizeof_ipv6_address_t) \<or>
          open_fd env < 0 \<or> query_r env < 0
       then buffer s2 = buffer s \<and> result s2 = result s
       else st2 = NSS_STATUS_TRYAGAIN \<and> errnop s2 = ERANGE \<and>
            buffer s2 = ptr_cells (sizeof_ptr b) Null @ drop (sizeof_ptr b) (buffer s) \<and>
            result s2 = (result s)\<lparr>h_aliases := Buf 0\<rparr>"
  proof (cases "len \<noteq> int (if af = AF_INET then sizeof_ipv4_address_t else sizeof_ipv6_address_t) \<or>
          family_unsupported b af \<or>
          length (buffer s) <
            sizeof_ptr b + (if af = AF_INET then sizeof_ipv4_address_t else sizeof_ipv6_address_t) \<or>
          open_fd env < 0 \<or> query_r env < 0")
    case True
    with reverse_early_untouched [OF conjunct1 [OF a] True] show ?thesis
      by (simp only: if_True; simp)
  next
    case False
    with reverse_late_head [OF conjunct1 [OF a] conjunct2 [OF a] False] show ?thesis
      by (simp only: if_False; simp)
  qed
qed

text \<open>
  The lookups of \<open>foo.local\<close> with 49 bytes and of 192.168.1.1 with 41 bytes fail the
  precise check and leave exactly those heads; a lookup whose query times out leaves the
  buffer and \<^verbatim>\<open>*result\<close> as they were.
\<close>

theorem failure_writes_at_most_the_head_witness:
  "gethostbyname2_r example_build example_collaborator ''foo.local'' AF_INET (example_call 49) =
     Done (NSS_STATUS_TRYAGAIN, example_short) \<and>
   buffer example_short =
     ptr_cells 8 Null @ map Byte ''foo.local'' @ [Byte NUL] @ drop 18 (buffer (example_call 49)) \<and>
   result example_short =
     (result (example_call 49))\<lparr>h_aliases := Buf 0, h_name := Buf 8,
        h_addrtype := AF_INET, h_length := 4\<rparr> \<and>
   gethostbyaddr_r example_build example_collaborator example_addr 4 AF_INET (example_call 41) =
     Done (NSS_STATUS_TRYAGAIN, example_reverse_short) \<and>
   buffer example_reverse_short = ptr_cells 8 Null @ drop 8 (buffer (example_call 41)) \<and>
   result example_reverse_short = (result (example_call 41))\<lparr>h_aliases := Buf 0\<rparr> \<and>
   gethostbyname2_r example_build example_timeout ''foo.local'' AF_INET (example_call 50) =
     Done (NSS_STATUS_UNAVAIL, example_timed_out) \<and>
   buffer example_timed_out = buffer (example_call 50) \<and>
   result example_timed_out = result (example_call 50)"
proof -
  have fwd: "gethostbyname2_r example_build example_collaborator ''foo.local'' AF_INET
               (example_call 49) = Done (NSS_STATUS_TRYAGAIN, example_short)"
    by code_simp
  have rev: "gethostbyaddr_r example_build example_collaborator example_addr 4 AF_INET
               (example_call 41) = Done (NSS_STATUS_TRYAGAIN, example_reverse_short)"
    by code_simp
  have tmo: "gethostbyname2_r example_build example_timeout ''foo.local'' AF_INET
               (example_call 50) = Done (NSS_STATUS_UNAVAIL, example_timed_out)"
    by code_simp
  have c: "\<not> family_unsupported example_build AF_INET" "sizeof_ptr example_build = 8"
    "strlen ''foo.local'' = 9" "c_str ''foo.local'' = ''foo.local''"
    "open_fd example_collaborator = 3" "query_r example_collaborator = 0"
    "open_fd example_timeout = 3" "query_r example_timeout = - 1"
    "length (buffer (example_call 49)) = 49" "length (buffer (example_call 41)) = 41"
    by (simp_all add: family_unsupported_def example_build_def strlen_def c_str_def NUL_def
        example_collaborator_def example_timeout_def example_call_def)
  show ?thesis
    using failure_writes_at_most_the_head [of example_build example_collaborator "''foo.local''"
        AF_INET "example_call 49" NSS_STATUS_TRYAGAIN example_short example_addr 4
        NSS_STATUS_TRYAGAIN example_reverse_short]
      failure_writes_at_most_the_head [of example_build example_collaborator "''foo.local''"
        AF_INET "example_call 41" NSS_STATUS_TRYAGAIN example_short example_addr 4
        NSS_STATUS_TRYAGAIN example_reverse_short]
      failure_writes_at_most_the_head [of example_build example_timeout "''foo.local''"
        AF_INET "example_call 50" NSS_STATUS_UNAVAIL example_timed_out example_addr 4
        NSS_STATUS_TRYAGAIN example_reverse_short]
      fwd rev tmo
    by (simp add: c sizeof_ipv4_address_t_def)
qed

text \<open>
  C7 as stated fails: the lookup of \<open>foo.local\<close> with a buffer of 49 bytes returns
  \<^verbatim>\<open>NSS_STATUS_TRYAGAIN\<close>, and yet the buffer holds the name at offset 8 and
  \<^verbatim>\<open>h_name\<close> points at it.
\<close>

theorem partial_record_counterexample:
  "gethostbyname2_r example_build example_collaborator ''foo.local'' AF_INET (example_call 49) =
     Done (NSS_STATUS_TRYAGAIN, example_short) \<and>
   buffer example_short \<noteq> buffer (example_call 49) \<and>
   result example_short \<noteq> result (example_call 49) \<and>
   load_cstring (buffer example_short) 8 = Some ''foo.local'' \<and>
   h_name (result example_short) = Buf 8"
  by code_simp


section \<open>The calls an entry point makes\<close>


lemma record_calls:
  assumes "gethostbyname2_record b name af w fd u s = Done (st, s')" and "0 \<le> fd"
  shows "calls s' = calls s @ [Close fd]"
  using assms
  by (auto simp: gethostbyname2_record_def Let_def rbind_Done_iff finish_def
      split: if_splits prod.splits)

lemma reverse_record_calls:
  assumes "gethostbyaddr_record b addr af w fd u s = Done (st, s')" and "0 \<le> fd"
  shows "calls s' = calls s @ [Close fd]"
  using assms
  by (auto simp: gethostbyaddr_record_def Let_def rbind_Done_iff finish_def
      split: if_splits)

lemma forward_calls:
  assumes "gethostbyname2_r b env name af s = Done (st, s')"
  shows "calls s' = calls s @
     (if family_unsupported b af \<or> length (buffer s) < sizeof_ptr b + strlen name + 1 then []
      else if open_fd env < 0 then [Open_socket (open_fd env)]
      else [Open_socket (open_fd env),
            Query_name (open_fd env) (c_str name) (af = AF_INET) (af = AF_INET6),
            Close (open_fd env)])"
  using assms
  by (auto simp: gethostbyname2_r_def Let_def rbind_Done_iff finish_def
      dest!: record_calls split: if_splits)

lemma reverse_calls:
  assumes "gethostbyaddr_r b env addr len af s = Done (st, s')"
  shows "calls s' = calls s @
     (if len \<noteq> int (if af = AF_INET then sizeof_ipv4_address_t else sizeof_ipv6_address_t) \<or>
         family_unsupported b af \<or>
         length (buffer s) <
           sizeof_ptr b + (if af = AF_INET then sizeof_ipv4_address_t else sizeof_ipv6_address_t)
      then []
      else if open_fd env < 0 then [Open_socket (open_fd env)]
      else [Open_socket (open_fd env),
            (if af = AF_INET then Query_ipv4 (open_fd env) addr else Query_ipv6 (open_fd env) addr),
            Close (open_fd env)])"
  using assms
  by (auto simp: gethostbyaddr_r_def Let_def rbind_Done_iff finish_def
      dest!: reverse_record_calls split: if_splits)


section \<open>The channel is released; the default family\<close>


lemma forward_discipline:
  assumes "gethostbyname2_r b env name af s = Done (st, s')"
  shows "channel_discipline (calls s) (calls s')"
  unfolding channel_discipline_def forward_calls [OF assms]
  by simp

lemma reverse_discipline:
  assumes "gethostbyaddr_r b env addr len af s = Done (st, s')"
  shows "channel_discipline (calls s) (calls s')"
  unfolding channel_discipline_def reverse_calls [OF assms]
  by simp

text \<open>
  C8.  Whenever an entry point returns, on whichever path (success, invalid argument,
  buffer too small at either check, open failure, query failure), the calls it has made
  are none, or one open that failed, or one open that succeeded followed by one query and
  by the close of the descriptor opened: a channel that was opened is closed exactly once
  before the return, and nothing is closed that was not opened.  (A run that stops in an
  assertion does not return.)
\<close>

theorem channel_closed_exactly_once:
  "(gethostbyname2_r b env name af s = Done (st1, s1) \<longrightarrow>
      channel_discipline (calls s) (calls s1)) \<and>
   (gethostbyname_r b env name s = Done (st2, s2) \<longrightarrow>
      channel_discipline (calls s) (calls s2)) \<and>
   (gethostbyaddr_r b env addr len af s = Done (st3, s3) \<longrightarrow>
      channel_discipline (calls s) (calls s3))"
  using forward_discipline reverse_discipline
  unfolding gethostbyname_r_def by blast

text \<open>
  The successful lookup of \<open>foo.local\<close> opens and closes descriptor 3; a reverse lookup
  whose open fails closes nothing.
\<close>

theorem channel_closed_exactly_once_witness:
  "gethostbyname2_r example_build example_collaborator ''foo.local'' AF_INET (example_call 50) =
     Done (NSS_STATUS_SUCCESS, example_success) \<and>
   gethostbyname_r example_build example_collaborator ''foo.local'' (example_call 50) =
     Done (NSS_STATUS_SUCCESS, example_success) \<and>
   channel_discipline [] (calls example_success) \<and>
   opened (calls example_success) = [3] \<and>
   closed (calls example_success) = [3] \<and>
   gethostbyaddr_r example_build example_no_socket example_addr 4 AF_INET (example_call 42) =
     Done (NSS_STATUS_UNAVAIL,
       (example_call 42)\<lparr>errnop := 24, h_errnop := NO_RECOVERY, calls := [Open_socket (- 1)]\<rparr>) \<and>
   channel_discipline [] [Open_socket (- 1)] \<and>
   closed [Open_socket (- 1)] = []"
proof -
  have fwd: "gethostbyname2_r example_build example_collaborator ''foo.local'' AF_INET
               (example_call 50) = Done (NSS_STATUS_SUCCESS, example_success)"
    by code_simp
  have dflt: "gethostbyname_r example_build example_collaborator ''foo.local''
               (example_call 50) = Done (NSS_STATUS_SUCCESS, example_success)"
    by code_simp
  have rev: "gethostbyaddr_r example_build example_no_socket example_addr 4 AF_INET
               (example_call 42) =
             Done (NSS_STATUS_UNAVAIL,
               (example_call 42)\<lparr>errnop := 24, h_errnop := NO_RECOVERY,
                  calls := [Open_socket (- 1)]\<rparr>)"
    by code_simp
  have c: "calls (example_call 50) = []" "calls (example_call 42) = []"
    by (simp_all add: example_call_def)
  have oc: "opened (calls example_success) = [3]" "closed (calls example_success) = [3]"
    by (simp_all add: example_success_def)
  show ?thesis
    using channel_closed_exactly_once [of example_build example_collaborator "''foo.local''"
        AF_INET "example_call 50" NSS_STATUS_SUCCESS example_success
        NSS_STATUS_SUCCESS example_success]
      channel_closed_exactly_once [of example_build example_no_socket _ AF_INET
        "example_call 42" _ _ _ _ example_addr 4 NSS_STATUS_UNAVAIL
        "(example_call 42)\<lparr>errnop := 24, h_errnop := NO_RECOVERY, calls := [Open_socket (- 1)]\<rparr>"]
      fwd dflt rev
    by (simp add: c oc)
qed

text \<open>
  C9.  \<^verbatim>\<open>_nss_mdns_gethostbyname_r\<close> returns the status and leaves the state that
  \<^verbatim>\<open>_nss_mdns_gethostbyname2_r\<close> does with the same arguments and the default family of
  the build: \<^verbatim>\<open>AF_INET6\<close> under \<^verbatim>\<open>NSS_IPV6_ONLY\<close>, \<^verbatim>\<open>AF_INET\<close> otherwise.
\<close>

theorem default_family_wrapper:
  "gethostbyname_r b env name s = gethostbyname2_r b env name (default_family b) s"
  by (simp add: gethostbyname_r_def default_family_def)

text \<open>In the build for both families the default lookup of \<open>foo.local\<close> is the IPv4 one.\<close>

theorem default_family_wrapper_witness:
  "gethostbyname_r example_build example_collaborator ''foo.local'' (example_call 50) =
     Done (NSS_STATUS_SUCCESS, example_success) \<and>
   default_family example_build = AF_INET"
proof -
  have fwd: "gethostbyname2_r example_build example_collaborator ''foo.local'' AF_INET
               (example_call 50) = Done (NSS_STATUS_SUCCESS, example_success)"
    by code_simp
  have d: "default_family example_build = AF_INET"
    by (simp add: default_family_def example_build_def)
  show ?thesis
    using default_family_wrapper [of example_build example_collaborator "''foo.local''"
        "example_call 50"] fwd d
    by simp
qed


section \<open>Invalid arguments, failed queries and empty answers\<close>


text \<open>
  C5.  When the requested family is not one the build supports (for the reverse lookup:
  or the address length is not the width of the claimed family), the entry point returns
  with \<^verbatim>\<open>*errnop = EINVAL\<close> and \<^verbatim>\<open>*h_errnop = NO_RECOVERY\<close> and nothing else changed:
  the calls made are those made before, so no channel was opened and no query primitive
  was invoked, whatever the collaborator would have done.
\<close>

theorem invalid_argument_no_channel:
  "(family_unsupported b af \<longrightarrow>
      gethostbyname2_r b env name af s =
        Done (NSS_STATUS_UNAVAIL, s\<lparr>errnop := EINVAL, h_errnop := NO_RECOVERY\<rparr>) \<and>
      calls (s\<lparr>errnop := EINVAL, h_errnop := NO_RECOVERY\<rparr>) = calls s) \<and>
   (len \<noteq> int (if af = AF_INET then sizeof_ipv4_address_t else sizeof_ipv6_address_t) \<or>
    family_unsupported b af \<longrightarrow>
      gethostbyaddr_r b env addr len af s =
        Done (NSS_STATUS_UNAVAIL, s\<lparr>errnop := EINVAL, h_errnop := NO_RECOVERY\<rparr>))"
  by (simp add: gethostbyname2_r_def gethostbyaddr_r_def finish_def Let_def)

text \<open>
  Family 1 (\<^verbatim>\<open>AF_UNIX\<close>) in a build for both families, and an IPv4 address stated with
  length 3.
\<close>

theorem invalid_argument_no_channel_witness:
  "gethostbyname2_r example_build example_collaborator ''foo.local'' 1 (example_call 50) =
     Done (NSS_STATUS_UNAVAIL, (example_call 50)\<lparr>errnop := EINVAL, h_errnop := NO_RECOVERY\<rparr>) \<and>
   calls ((example_call 50)\<lparr>errnop := EINVAL, h_errnop := NO_RECOVERY\<rparr>) = [] \<and>
   gethostbyaddr_r example_build example_collaborator example_addr 3 AF_INET (example_call 42) =
     Done (NSS_STATUS_UNAVAIL, (example_call 42)\<lparr>errnop := EINVAL, h_errnop := NO_RECOVERY\<rparr>) \<and>
   gethostbyaddr_r example_build example_collaborator example_addr 4 1 (example_call 42) =
     Done (NSS_STATUS_UNAVAIL, (example_call 42)\<lparr>errnop := EINVAL, h_errnop := NO_RECOVERY\<rparr>)"
proof -
  have u: "family_unsupported example_build 1"
    by (simp add: family_unsupported_def example_build_def AF_INET_def AF_INET6_def)
  have l: "(3::int) \<noteq> int (if AF_INET = AF_INET then sizeof_ipv4_address_t
                              else sizeof_ipv6_address_t)"
    by (simp add: sizeof_ipv4_address_t_def)
  have c: "calls (example_call 50) = []"
    by (simp add: example_call_def)
  show ?thesis
    using invalid_argument_no_channel [of example_build 1 example_collaborator "''foo.local''"
        "example_call 50" 4 example_addr]
      invalid_argument_no_channel [of example_build AF_INET example_collaborator "''foo.local''"
        "example_call 42" 3 example_addr]
      invalid_argument_no_channel [of example_build 1 example_collaborator "''foo.local''"
        "example_call 42" 4 example_addr]
      u l c
    by simp
qed

text \<open>
  C4.  What the code does when the query returns a negative value: the buffer and
  \<^verbatim>\<open>*result\<close> are untouched, the channel is closed, \<^verbatim>\<open>*errnop\<close> is \<^verbatim>\<open>ETIMEDOUT\<close> and
  \<^verbatim>\<open>*h_errnop\<close> is \<^verbatim>\<open>HOST_NOT_FOUND\<close>; but the status returned is
  \<^verbatim>\<open>NSS_STATUS_UNAVAIL\<close>, the initial value of \<^verbatim>\<open>status\<close>, which lines 117 to 121 and
  248 to 252 never assign, and not \<^verbatim>\<open>NSS_STATUS_NOTFOUND\<close>.
\<close>

theorem query_failure_returns_unavail:
  "(\<not> family_unsupported b af \<and> sizeof_ptr b + strlen name + 1 \<le> length (buffer s) \<and>
    0 \<le> open_fd env \<and>
    mdns_query_name (answers env) (af = AF_INET) (af = AF_INET6) empty_userdata = Done u \<and>
    query_r env < 0 \<longrightarrow>
      gethostbyname2_r b env name af s =
        Done (NSS_STATUS_UNAVAIL,
          s\<lparr>calls := calls s @ [Open_socket (open_fd env),
                  Query_name (open_fd env) (c_str name) (af = AF_INET) (af = AF_INET6),
                  Close (open_fd env)],
             errnop := ETIMEDOUT, h_errnop := HOST_NOT_FOUND\<rparr>)) \<and>
   (len = int (if af = AF_INET then sizeof_ipv4_address_t else sizeof_ipv6_address_t) \<and>
    \<not> family_unsupported b af \<and>
    sizeof_ptr b + (if af = AF_INET then sizeof_ipv4_address_t else sizeof_ipv6_address_t)
      \<le> length (buffer s) \<and>
    0 \<le> open_fd env \<and>
    mdns_query_addr (names env) empty_userdata = Done u' \<and>
    query_r env < 0 \<longrightarrow>
      gethostbyaddr_r b env addr len af s =
        Done (NSS_STATUS_UNAVAIL,
          s\<lparr>calls := calls s @ [Open_socket (open_fd env),
                  (if af = AF_INET then Query_ipv4 (open_fd env) addr
                   else Query_ipv6 (open_fd env) addr),
                  Close (open_fd env)],
             errnop := ETIMEDOUT, h_errnop := HOST_NOT_FOUND\<rparr>))"
proof (intro conjI impI)
  assume a: "\<not> family_unsupported b af \<and> sizeof_ptr b + strlen name + 1 \<le> length (buffer s) \<and>
    0 \<le> open_fd env \<and>
    mdns_query_name (answers env) (af = AF_INET) (af = AF_INET6) empty_userdata = Done u \<and>
    query_r env < 0"
  then show "gethostbyname2_r b env name af s =
        Done (NSS_STATUS_UNAVAIL,
          s\<lparr>calls := calls s @ [Open_socket (open_fd env),
                  Query_name (open_fd env) (c_str name) (af = AF_INET) (af = AF_INET6),
                  Close (open_fd env)],
             errnop := ETIMEDOUT, h_errnop := HOST_NOT_FOUND\<rparr>)"
    using forward_after_query [of b af name s env u] by simp
next
  assume a: "len = int (if af = AF_INET then sizeof_ipv4_address_t else sizeof_ipv6_address_t) \<and>
    \<not> family_unsupported b af \<and>
    sizeof_ptr b + (if af = AF_INET then sizeof_ipv4_address_t else sizeof_ipv6_address_t)
      \<le> length (buffer s) \<and>
    0 \<le> open_fd env \<and>
    mdns_query_addr (names env) empty_userdata = Done u' \<and>
    query_r env < 0"
  then show "gethostbyaddr_r b env addr len af s =
        Done (NSS_STATUS_UNAVAIL,
          s\<lparr>calls := calls s @ [Open_socket (open_fd env),
                  (if af = AF_INET then Query_ipv4 (open_fd env) addr
                   else Query_ipv6 (open_fd env) addr),
                  Close (open_fd env)],
             errnop := ETIMEDOUT, h_errnop := HOST_NOT_FOUND\<rparr>)"
    using reverse_after_query [of len af b s env u' addr] by simp
qed

text \<open>
  A forward and a reverse lookup against a collaborator whose query times out: both return
  \<^verbatim>\<open>NSS_STATUS_UNAVAIL\<close>.
\<close>

theorem query_failure_returns_unavail_witness:
  "gethostbyname2_r example_build example_timeout ''foo.local'' AF_INET (example_call 50) =
     Done (NSS_STATUS_UNAVAIL,
       (example_call 50)\<lparr>calls := [Open_socket 3, Query_name 3 ''foo.local'' True False, Close 3],
          errnop := ETIMEDOUT, h_errnop := HOST_NOT_FOUND\<rparr>) \<and>
   gethostbyaddr_r example_build example_timeout example_addr 4 AF_INET (example_call 42) =
     Done (NSS_STATUS_UNAVAIL,
       (example_call 42)\<lparr>calls := [Open_socket 3, Query_ipv4 3 example_addr, Close 3],
          errnop := ETIMEDOUT, h_errnop := HOST_NOT_FOUND\<rparr>) \<and>
   NSS_STATUS_UNAVAIL \<noteq> NSS_STATUS_NOTFOUND"
proof -
  have c: "\<not> family_unsupported example_build AF_INET" "sizeof_ptr example_build = 8"
    "strlen ''foo.local'' = 9" "c_str ''foo.local'' = ''foo.local''"
    "open_fd example_timeout = 3" "query_r example_timeout = - 1"
    "answers example_timeout = []" "names example_timeout = []"
    "length (buffer (example_call 50)) = 50" "length (buffer (example_call 42)) = 42"
    "calls (example_call 50) = []" "calls (example_call 42) = []"
    by (simp_all add: family_unsupported_def example_build_def strlen_def c_str_def NUL_def
        example_timeout_def example_collaborator_def example_call_def)
  have q: "mdns_query_name [] (AF_INET = AF_INET) (AF_INET = AF_INET6) empty_userdata =
             Done empty_userdata"
    "mdns_query_addr [] empty_userdata = Done empty_userdata"
    by (simp_all add: mdns_query_addr_def)
  show ?thesis
    using query_failure_returns_unavail [of example_build AF_INET "''foo.local''"
        "example_call 50" example_timeout empty_userdata 4 empty_userdata example_addr]
      query_failure_returns_unavail [of example_build AF_INET "''foo.local''"
        "example_call 42" example_timeout empty_userdata 4 empty_userdata example_addr]
      q
    by (simp add: c sizeof_ipv4_address_t_def AF_distinct)
qed

text \<open>
  C10.  In the reverse lookup with valid arguments, a buffer that passes the coarse check
  and a channel that opens: when the query returns a nonnegative value without having
  delivered any name, the assertion of line 259 fails and the run aborts.  Conversely, a
  reverse lookup that returns after a query that did not fail (in particular one that
  returns \<^verbatim>\<open>NSS_STATUS_SUCCESS\<close>) was delivered at least one name, and the first one was
  not null and was duplicated successfully.
\<close>

theorem reverse_needs_a_name:
  "(len = int (if af = AF_INET then sizeof_ipv4_address_t else sizeof_ipv6_address_t) \<and>
    \<not> family_unsupported b af \<and>
    sizeof_ptr b + (if af = AF_INET then sizeof_ipv4_address_t else sizeof_ipv6_address_t)
      \<le> length (buffer s) \<and>
    0 \<le> open_fd env \<and> 0 \<le> query_r env \<and> names env = [] \<longrightarrow>
      gethostbyaddr_r b env addr len af s = Abort) \<and>
   (gethostbyaddr_r b env addr len af s = Done (st, s') \<and>
    (st = NSS_STATUS_SUCCESS \<or> calls s' \<noteq> calls s \<and> 0 \<le> open_fd env \<and> 0 \<le> query_r env) \<longrightarrow>
      (\<exists>n rest. names env = (Some n, True) # rest))"
proof (intro conjI impI)
  let ?w = "if af = AF_INET then sizeof_ipv4_address_t else sizeof_ipv6_address_t"
  assume a: "len = int ?w \<and> \<not> family_unsupported b af \<and>
    sizeof_ptr b + ?w \<le> length (buffer s) \<and>
    0 \<le> open_fd env \<and> 0 \<le> query_r env \<and> names env = []"
  then have q: "mdns_query_addr (names env) empty_userdata = Done empty_userdata"
    by (simp add: mdns_query_addr_def)
  have fn: "first_name empty_userdata = Abort"
    by (simp add: first_name_def empty_userdata_def)
  from a have "sizeof_ptr b \<le> length (buffer s)" by simp
  then show "gethostbyaddr_r b env addr len af s = Abort"
    using a reverse_after_query [of len af b s env empty_userdata addr] q fn
    by (simp add: gethostbyaddr_record_def Let_def store_start)
next
  let ?w = "if af = AF_INET then sizeof_ipv4_address_t else sizeof_ipv6_address_t"
  assume a: "gethostbyaddr_r b env addr len af s = Done (st, s') \<and>
    (st = NSS_STATUS_SUCCESS \<or> calls s' \<noteq> calls s \<and> 0 \<le> open_fd env \<and> 0 \<le> query_r env)"
  then have run: "gethostbyaddr_r b env addr len af s = Done (st, s')" by simp
  from a have "st = NSS_STATUS_SUCCESS \<or> calls s' \<noteq> calls s \<and> 0 \<le> open_fd env" by blast
  from reverse_reaches_query [OF run this] obtain u where
    len: "len = int ?w"
    and sup: "\<not> family_unsupported b af"
    and coarse: "sizeof_ptr b + ?w \<le> length (buffer s)"
    and fd: "0 \<le> open_fd env"
    and q: "mdns_query_addr (names env) empty_userdata = Done u"
    by auto
  note aq = reverse_after_query [OF len sup coarse fd q]
  have r: "0 \<le> query_r env"
    using a run aq by (auto split: if_splits)
  have "first_name u \<noteq> Abort"
    using run aq r by (auto simp: gethostbyaddr_record_def Let_def rbind_Done_iff)
  with first_name_cases [OF q] show "\<exists>n rest. names env = (Some n, True) # rest"
    by auto
qed

text \<open>
  The reverse lookup of 192.168.1.1 aborts when the query succeeds with no name, and
  succeeds with the one name \<open>printer.local\<close>.
\<close>

theorem reverse_needs_a_name_witness:
  "gethostbyaddr_r example_build example_no_name example_addr 4 AF_INET (example_call 42) = Abort \<and>
   gethostbyaddr_r example_build example_collaborator example_addr 4 AF_INET (example_call 42) =
     Done (NSS_STATUS_SUCCESS, example_reverse_success) \<and>
   names example_collaborator = [(Some ''printer.local'', True)]"
proof -
  have c: "\<not> family_unsupported example_build AF_INET" "sizeof_ptr example_build = 8"
    "open_fd example_no_name = 3" "query_r example_no_name = 0" "names example_no_name = []"
    "length (buffer (example_call 42)) = 42"
    "names example_collaborator = [(Some ''printer.local'', True)]"
    by (simp_all add: family_unsupported_def example_build_def
        example_no_name_def example_collaborator_def example_call_def)
  have rev: "gethostbyaddr_r example_build example_collaborator example_addr 4 AF_INET
               (example_call 42) = Done (NSS_STATUS_SUCCESS, example_reverse_success)"
    by code_simp
  show ?thesis
    using reverse_needs_a_name [of 4 AF_INET example_build "example_call 42" example_no_name
        example_addr NSS_STATUS_SUCCESS example_reverse_success]
      reverse_needs_a_name [of 4 AF_INET example_build "example_call 42" example_collaborator
        example_addr NSS_STATUS_SUCCESS example_reverse_success]
      rev
    by (simp add: c sizeof_ipv4_address_t_def)
qed


end
